(* ===== verification/SyncPrelude.thy ===== *)
theory SyncPrelude
  imports Main "HOL-Library.Word" "HOL-Library.Finite_Map" "HOL-Library.Char_ord"
    "HOL-Library.List_Lexorder" "HOL-Library.Product_Lexorder"
begin

text \<open>
  Types, collections and generic lemmas the components share: the Go integer types, the
  collections that carry the component proofs, facts on machine words, on lexicographic
  order of byte strings and on finite maps read with a zero default.
\<close>

section \<open>Types\<close>

text \<open>
  A Go \<open>string\<close> is a sequence of bytes: \<^typ>\<open>string\<close>, whose lexicographic order
  (List_Lexorder over Char_ord) is the byte order of \<open>strings.Compare\<close>. Unsigned integers
  keep their width. An \<open>int64\<close> on which the code does no arithmetic that could leave the
  range is an \<^typ>\<open>int\<close>; where it can (limits, back-off delays) it is a 64-bit word read
  with \<open>sint\<close>.
\<close>

type_synonym u32 = "32 word"
type_synonym u64 = "64 word"
type_synonym i64 = "64 word"
type_synonym time = int

named_theorems causality_simps "characterisations of the causality relation"
named_theorems store_simps "closed forms of storage operations when no statement fails"
named_theorems record_intros "introduction rules for the record summary"

section \<open>Words\<close>

lemma word_less_Suc_self [simp]: "(x :: 'a::len word) < x + 1 \<longleftrightarrow> x \<noteq> - 1"
proof
  assume "x \<noteq> - 1"
  then have "1 + x \<noteq> 0" by (metis add_eq_0_iff)
  then have "unat (1 + x) = Suc (unat x)" by (rule unatSuc)
  then show "x < x + 1" by (simp add: word_less_nat_alt add.commute)
qed auto

lemma word_le_Suc_self: "(x :: 'a::len word) \<noteq> - 1 \<Longrightarrow> x \<le> x + 1"
  by (rule less_imp_le) simp

lemma zero_less_full [simp]: "(0 :: 'a::len word) < - 1"
  by (simp add: word_gt_0)

lemma max_full [simp]: "max (- 1) (x :: 'a::len word) = - 1" "max x (- 1) = - 1"
  by (simp_all add: max_def word_order.extremum_unique)

lemma unat_not_max: "unat (w :: 'a::len word) \<le> n \<Longrightarrow> n < 2 ^ LENGTH('a) - 1 \<Longrightarrow> w \<noteq> - 1"
  by (auto simp: unsigned_minus_1_eq_mask mask_eq_exp_minus_1)

lemma unat_Suc_le: "unat (w :: 'a::len word) \<le> n \<Longrightarrow> unat (w + 1) \<le> Suc n"
proof (cases "w = - 1")
  case False
  assume n: "unat w \<le> n"
  from False have "1 + w \<noteq> 0" by (metis add_eq_0_iff)
  then have "unat (1 + w) = Suc (unat w)" by (rule unatSuc)
  with n show ?thesis by (simp add: add.commute)
qed simp

section \<open>Lexicographic order\<close>

lemma lex_less_append:
  "length xs = length ys \<Longrightarrow>
    (xs @ us < ys @ vs) = (xs < ys \<or> xs = ys \<and> us < (vs :: 'a::linorder list))"
proof (induction xs ys rule: list_induct2)
  case Nil
  then show ?case by simp
next
  case (Cons x xs y ys)
  then show ?case by auto
qed

section \<open>Finite maps with a default\<close>

text \<open>A Go map read \<open>m[k]\<close> gives the zero value of the element type for an absent key.\<close>

definition fmget :: "('k, 'v) fmap \<Rightarrow> 'v \<Rightarrow> 'k \<Rightarrow> 'v" where
  "fmget m z k = (case fmlookup m k of None \<Rightarrow> z | Some v \<Rightarrow> v)"

lemma fmget_empty [simp]: "fmget fmempty z k = z"
  by (simp add: fmget_def)

lemma fmget_upd [simp]: "fmget (fmupd k v m) z j = (if j = k then v else fmget m z j)"
  by (simp add: fmget_def)

lemma fmget_Some: "fmlookup m k = Some v \<Longrightarrow> fmget m z k = v"
  by (simp add: fmget_def)

lemma sorted_list_of_fmap_distinct [simp]: "distinct (map fst (sorted_list_of_fmap m))"
  by (simp add: sorted_list_of_fmap_def comp_def sorted_list_of_fset.rep_eq)

lemma sorted_list_of_fmap_fmap_of_list [simp]: "fmap_of_list (sorted_list_of_fmap m) = m"
  by (rule fmap_ext) (simp add: fmlookup_of_list)

lemma fmlookup_foldl_upd: "distinct (map fst es) \<Longrightarrow>
    fmlookup (foldl (\<lambda>m e. fmupd (fst e) (snd e) m) m es) k =
      (case map_of es k of None \<Rightarrow> fmlookup m k | Some v \<Rightarrow> Some v)"
proof (induction es arbitrary: m)
  case Nil
  then show ?case by simp
next
  case (Cons e es)
  show ?case
  proof (cases "k = fst e")
    case True
    with Cons.prems have "map_of es k = None" by (simp add: map_of_eq_None_iff)
    with True Cons show ?thesis by simp
  next
    case False
    with Cons show ?thesis by (simp split: option.split)
  qed
qed

lemma foldl_upd_sorted_list [simp]:
  "foldl (\<lambda>m e. fmupd (fst e) (snd e) m) fmempty (sorted_list_of_fmap m) = m"
proof (rule fmap_ext)
  fix k
  have "map_of (sorted_list_of_fmap m) k = fmlookup m k"
    by (metis fmlookup_of_list sorted_list_of_fmap_fmap_of_list)
  then show "fmlookup (foldl (\<lambda>m e. fmupd (fst e) (snd e) m) fmempty (sorted_list_of_fmap m)) k = fmlookup m k"
    by (simp add: fmlookup_foldl_upd split: option.split)
qed

section \<open>Lists\<close>

end
