(* ===== verification/GoStd.thy ===== *)
theory GoStd
  imports SyncPrelude
begin

text \<open>
  The parts of Go's standard library the sources compute with: error values and
  \<open>errors.As\<close>, decimal text (\<open>fmt\<close> and \<open>strconv\<close>), and the two \<open>strings\<close>
  functions the request handlers use.
\<close>

section \<open>Errors\<close>

text \<open>
  A Go error is a text (\<open>errors.New\<close>), a text around another error
  (\<open>fmt.Errorf("msg: %w", err)\<close>), an error of the database driver or of the HTTP
  transport with the text the library gives it, or the client's \<open>retryableError\<close> wrapper.
\<close>

datatype go_error =
    ErrNew string
  | ErrWrap string go_error
  | ErrLib string
  | ErrRetryable go_error

type_synonym 'a result = "go_error + 'a"

fun err_text :: "go_error \<Rightarrow> string" where
  "err_text (ErrNew m) = m"
| "err_text (ErrWrap m e) = m @ '': '' @ err_text e"
| "err_text (ErrLib m) = m"
| "err_text (ErrRetryable e) = err_text e"

text \<open>\<open>errors.As(err, &retryable)\<close> walks the chain of \<open>Unwrap\<close>.\<close>

fun is_retryable :: "go_error \<Rightarrow> bool" where
  "is_retryable (ErrRetryable e) = True"
| "is_retryable (ErrWrap m e) = is_retryable e"
| "is_retryable (ErrNew m) = False"
| "is_retryable (ErrLib m) = False"

section \<open>Decimal text\<close>

definition digit_char :: "nat \<Rightarrow> char" where
  "digit_char d = char_of (48 + d)"

fun show_nat :: "nat \<Rightarrow> string" where
  "show_nat n = (if n < 10 then [digit_char n] else show_nat (n div 10) @ [digit_char (n mod 10)])"

declare show_nat.simps [simp del]

text \<open>\<open>strconv.FormatInt(i, 10)\<close> and the \<open>%d\<close> verb.\<close>

definition format_int :: "int \<Rightarrow> string" where
  "format_int i = (if i < 0 then CHR ''-'' # show_nat (nat (- i)) else show_nat (nat i))"

text \<open>The verb \<open>%0wd\<close>: zeros go after the sign, and count towards the width \<open>w\<close>.\<close>

definition zeros :: "nat \<Rightarrow> string" where
  "zeros k = replicate k (CHR ''0'')"

definition format_pad :: "nat \<Rightarrow> int \<Rightarrow> string" where
  "format_pad w i =
     (if i < 0
      then (let ds = show_nat (nat (- i)) in CHR ''-'' # zeros (w - 1 - length ds) @ ds)
      else (let ds = show_nat (nat i) in zeros (w - length ds) @ ds))"

text \<open>\<open>strconv.ParseInt(s, 10, 64)\<close>, which \<open>strconv.Atoi\<close> equals on 64-bit platforms.\<close>

definition char_digit :: "char \<Rightarrow> nat option" where
  "char_digit c =
     (if 48 \<le> (of_char c :: nat) \<and> (of_char c :: nat) \<le> 57 then Some (of_char c - 48) else None)"

fun parse_digits :: "nat \<Rightarrow> string \<Rightarrow> nat option" where
  "parse_digits acc [] = Some acc"
| "parse_digits acc (c # cs) =
     (case char_digit c of None \<Rightarrow> None | Some d \<Rightarrow> parse_digits (10 * acc + d) cs)"

definition parse_unsigned :: "string \<Rightarrow> nat result" where
  "parse_unsigned s =
     (if s = [] then Inl (ErrNew ''invalid syntax'')
      else (case parse_digits 0 s of
              None \<Rightarrow> Inl (ErrNew ''invalid syntax'')
            | Some n \<Rightarrow> Inr n))"

definition parse_int :: "string \<Rightarrow> int result" where
  "parse_int s =
     (let neg = (s \<noteq> [] \<and> hd s = CHR ''-'');
          body = (if s \<noteq> [] \<and> (hd s = CHR ''-'' \<or> hd s = CHR ''+'') then tl s else s)
      in case parse_unsigned body of
           Inl e \<Rightarrow> Inl e
         | Inr n \<Rightarrow>
             (if \<not> neg \<and> int n \<ge> 2 ^ 63 then Inl (ErrNew ''value out of range'')
              else if neg \<and> int n > 2 ^ 63 then Inl (ErrNew ''value out of range'')
              else Inr (if neg then - int n else int n)))"

subsection \<open>Digits\<close>

lemma of_char_digit_char: "d < 10 \<Longrightarrow> of_char (digit_char d) = (48 + d :: nat)"
  by (simp add: digit_char_def)

lemma digit_char_less: "a < 10 \<Longrightarrow> b < 10 \<Longrightarrow> (digit_char a < digit_char b) = (a < b)"
  by (simp add: less_char_def of_char_digit_char)

lemma digit_char_eq: "a < 10 \<Longrightarrow> b < 10 \<Longrightarrow> (digit_char a = digit_char b) = (a = b)"
  by (metis digit_char_less less_irrefl nat_neq_iff)

lemma digit_char_0: "digit_char 0 = CHR ''0''"
  by (simp add: digit_char_def char_of_def bit_0)

lemma char_digit_digit_char [simp]: "d < 10 \<Longrightarrow> char_digit (digit_char d) = Some d"
  by (simp add: char_digit_def of_char_digit_char)

subsection \<open>Fixed width\<close>

text \<open>The last \<open>w\<close> decimal digits of \<open>n\<close>, most significant first.\<close>

fun fixed_digits :: "nat \<Rightarrow> nat \<Rightarrow> string" where
  "fixed_digits 0 n = []"
| "fixed_digits (Suc w) n = fixed_digits w (n div 10) @ [digit_char (n mod 10)]"

lemma length_fixed_digits [simp]: "length (fixed_digits w n) = w"
  by (induction w arbitrary: n) auto

lemma fixed_digits_0: "fixed_digits w 0 = zeros w"
  by (induction w) (auto simp: zeros_def digit_char_0 replicate_append_same)

lemma fixed_digits_eq:
  "m < 10 ^ w \<Longrightarrow> n < 10 ^ w \<Longrightarrow> (fixed_digits w m = fixed_digits w n) = (m = n)"
proof (induction w arbitrary: m n)
  case 0
  then show ?case by simp
next
  case (Suc w)
  have "m div 10 < 10 ^ w" "n div 10 < 10 ^ w" using Suc.prems by auto
  then have "(fixed_digits w (m div 10) = fixed_digits w (n div 10)) = (m div 10 = n div 10)"
    by (rule Suc.IH)
  then show ?case
    by (simp add: digit_char_eq) (metis div_mult_mod_eq)
qed

lemma less_by_div_mod:
  "((m :: nat) < n) = (m div 10 < n div 10 \<or> m div 10 = n div 10 \<and> m mod 10 < n mod 10)"
proof -
  have "m = 10 * (m div 10) + m mod 10" "n = 10 * (n div 10) + n mod 10" by simp_all
  moreover have "m mod 10 < 10" "n mod 10 < 10" by simp_all
  ultimately show ?thesis by linarith
qed

lemma fixed_digits_less:
  "m < 10 ^ w \<Longrightarrow> n < 10 ^ w \<Longrightarrow> (fixed_digits w m < fixed_digits w n) = (m < n)"
proof (induction w arbitrary: m n)
  case 0
  then show ?case by simp
next
  case (Suc w)
  have b: "m div 10 < 10 ^ w" "n div 10 < 10 ^ w" using Suc.prems by auto
  have "(m < n) = (m div 10 < n div 10 \<or> m div 10 = n div 10 \<and> m mod 10 < n mod 10)"
    by (rule less_by_div_mod)
  then show ?case
    using Suc.IH [OF b] fixed_digits_eq [OF b]
    by (simp add: lex_less_append digit_char_less)
qed

lemma show_nat_fixed: "n < 10 ^ w \<Longrightarrow> 0 < w \<Longrightarrow>
    zeros (w - length (show_nat n)) @ show_nat n = fixed_digits w n \<and> length (show_nat n) \<le> w"
proof (induction w arbitrary: n)
  case 0
  then show ?case by simp
next
  case (Suc w)
  show ?case
  proof (cases "n < 10")
    case True
    then show ?thesis by (simp add: show_nat.simps fixed_digits_0)
  next
    case False
    then have "0 < w" and "n div 10 < 10 ^ w"
      using Suc.prems by (auto intro: gr0I)
    with False Suc.IH [of "n div 10"] show ?thesis by (simp add: show_nat.simps [of n])
  qed
qed

lemma format_pad_fixed:
  "0 \<le> i \<Longrightarrow> i < 10 ^ w \<Longrightarrow> 0 < w \<Longrightarrow> format_pad w i = fixed_digits w (nat i)"
  using show_nat_fixed [of "nat i" w] by (simp add: format_pad_def Let_def nat_less_iff)

subsection \<open>Round trip\<close>

lemma parse_digits_append:
  "parse_digits acc (xs @ ys) =
     (case parse_digits acc xs of None \<Rightarrow> None | Some a \<Rightarrow> parse_digits a ys)"
  by (induction xs arbitrary: acc) (auto split: option.splits)

lemma parse_digits_show: "parse_digits 0 (show_nat n) = Some n"
proof (induction n rule: show_nat.induct)
  case (1 n)
  then show ?case
    by (cases "n < 10") (simp_all add: show_nat.simps [of n] parse_digits_append)
qed

lemma show_nat_neq_Nil [simp]: "show_nat n \<noteq> []"
  by (simp add: show_nat.simps)

lemma digit_char_no_sign: "d < 10 \<Longrightarrow> digit_char d \<noteq> CHR ''-'' \<and> digit_char d \<noteq> CHR ''+''"
proof -
  assume d: "d < 10"
  have "char_digit (CHR ''-'') = None" "char_digit (CHR ''+'') = None"
    by (simp_all add: char_digit_def)
  with char_digit_digit_char [OF d] show ?thesis by auto
qed

lemma hd_show_nat: "\<exists>d < 10. hd (show_nat n) = digit_char d"
proof (induction n rule: show_nat.induct)
  case (1 n)
  then show ?case
    by (cases "n < 10") (auto simp: show_nat.simps [of n])
qed

lemma parse_format_int:
  assumes "- (2 ^ 63) \<le> i" and "i < 2 ^ 63"
  shows "parse_int (format_int i) = Inr i"
proof -
  have "hd (show_nat n) \<noteq> CHR ''-'' \<and> hd (show_nat n) \<noteq> CHR ''+''" for n
    using hd_show_nat [of n] digit_char_no_sign by metis
  with assms show ?thesis
    by (simp add: parse_int_def format_int_def parse_unsigned_def parse_digits_show)
qed

section \<open>Prefixes and white space\<close>

text \<open>\<open>strings.CutPrefix\<close>: the rest after the prefix, if the prefix is there.\<close>

fun cut_prefix :: "string \<Rightarrow> string \<Rightarrow> string option" where
  "cut_prefix s [] = Some s"
| "cut_prefix [] (p # ps) = None"
| "cut_prefix (c # s) (p # ps) = (if c = p then cut_prefix s ps else None)"

lemma cut_prefix_append [simp]: "cut_prefix (p @ s) p = Some s"
  by (induction p) auto

lemma cut_prefix_SomeD: "cut_prefix s p = Some t \<Longrightarrow> s = p @ t"
  by (induction s p rule: cut_prefix.induct) (auto split: if_splits)

text \<open>
  \<open>strings.TrimSpace(s) == ""\<close>: every rune of \<open>s\<close> is white space. The white-space runes
  are the six ASCII ones, U+0085, U+00A0, U+1680, U+2000 to U+200A, U+2028, U+2029, U+202F,
  U+205F and U+3000; the bytes below are their UTF-8 encodings.
\<close>

definition space2 :: "nat \<Rightarrow> nat \<Rightarrow> bool" where
  "space2 a b \<longleftrightarrow> a = 194 \<and> (b = 133 \<or> b = 160)"

definition space3 :: "nat \<Rightarrow> nat \<Rightarrow> nat \<Rightarrow> bool" where
  "space3 a b c \<longleftrightarrow>
     a = 225 \<and> b = 154 \<and> c = 128
     \<or> a = 226 \<and> b = 128 \<and> (128 \<le> c \<and> c \<le> 138 \<or> c = 168 \<or> c = 169 \<or> c = 175)
     \<or> a = 226 \<and> b = 129 \<and> c = 159
     \<or> a = 227 \<and> b = 128 \<and> c = 128"

fun all_space :: "nat list \<Rightarrow> bool" where
  "all_space [] = True"
| "all_space (a # s) =
     (if 9 \<le> a \<and> a \<le> 13 \<or> a = 32 then all_space s
      else (case s of
              [] \<Rightarrow> False
            | b # s' \<Rightarrow>
                (if space2 a b then all_space s'
                 else (case s' of [] \<Rightarrow> False | c # s'' \<Rightarrow> space3 a b c \<and> all_space s''))))"

definition trim_space_empty :: "string \<Rightarrow> bool" where
  "trim_space_empty s = all_space (map of_char s)"

end
