(* ===== verification/Hlc.thy ===== *)
theory Hlc
  imports GoStd
begin

text \<open>
  The hybrid logical clock of \<open>internal/hlc/hlc.go\<close>: the timestamp, its order and its
  sortable text, and the clock with its two operations. The timestamp is made an instance of
  the class of linear orders whose order is the code's \<open>Compare\<close>; the conflict resolver
  relies on that order through the locale \<open>total_compare\<close>.
\<close>

section \<open>Timestamp\<close>

text \<open>
  \<open>Physical\<close> is an \<open>int64\<close> that is only compared and maximised, so an \<^typ>\<open>int\<close> keeps
  every behaviour; \<open>Logical\<close> is a \<open>uint32\<close> that is incremented, so it keeps its width.
\<close>

datatype timestamp = Timestamp (physical: int) (logical: u32) (node_id: string)

text \<open>\<open>strings.Compare\<close>.\<close>

definition string_compare :: "string \<Rightarrow> string \<Rightarrow> int" where
  "string_compare a b = (if a < b then - 1 else if b < a then 1 else 0)"

definition ts_compare :: "timestamp \<Rightarrow> timestamp \<Rightarrow> int" where
  "ts_compare t other =
     (if physical t < physical other then - 1
      else if physical other < physical t then 1
      else if logical t < logical other then - 1
      else if logical other < logical t then 1
      else string_compare (node_id t) (node_id other))"

definition after :: "timestamp \<Rightarrow> timestamp \<Rightarrow> bool" where
  "after t other \<longleftrightarrow> ts_compare t other > 0"

definition ts_string :: "timestamp \<Rightarrow> string" where
  "ts_string t =
     format_pad 19 (physical t) @ ''-'' @ format_pad 10 (uint (logical t)) @ ''-'' @ node_id t"

subsection \<open>The order\<close>

text \<open>What a user of a three-way comparison may rely on.\<close>

locale total_compare =
  fixes cmp :: "'a \<Rightarrow> 'a \<Rightarrow> int"
  assumes cmp_zero: "cmp x y = 0 \<longleftrightarrow> x = y"
    and cmp_flip: "cmp y x = - cmp x y"
    and cmp_trans: "cmp x y < 0 \<Longrightarrow> cmp y z < 0 \<Longrightarrow> cmp x z < 0"
begin

lemma cmp_refl [simp]: "cmp x x = 0"
  by (simp add: cmp_zero)

lemma cmp_asym: "cmp x y < 0 \<Longrightarrow> \<not> cmp y x < 0"
  by (simp add: cmp_flip [of x y])

lemma cmp_total: "x \<noteq> y \<Longrightarrow> cmp x y < 0 \<or> cmp y x < 0"
  using cmp_zero [of x y] cmp_flip [of x y] by linarith

lemma cmp_gt_iff: "0 < cmp x y \<longleftrightarrow> cmp y x < 0"
  by (simp add: cmp_flip [of y x])

end

instantiation timestamp :: linorder
begin

definition less_timestamp :: "timestamp \<Rightarrow> timestamp \<Rightarrow> bool" where
  "less_timestamp t u \<longleftrightarrow>
     physical t < physical u
     \<or> physical t = physical u \<and> (logical t < logical u
       \<or> logical t = logical u \<and> node_id t < node_id u)"

definition less_eq_timestamp :: "timestamp \<Rightarrow> timestamp \<Rightarrow> bool" where
  "less_eq_timestamp t u \<longleftrightarrow> t < u \<or> t = u"

instance
proof
  fix t u v :: timestamp
  show "t < u \<longleftrightarrow> t \<le> u \<and> \<not> u \<le> t"
    by (auto simp: less_timestamp_def less_eq_timestamp_def)
  show "t \<le> t" by (simp add: less_eq_timestamp_def)
  show "t \<le> u \<Longrightarrow> u \<le> v \<Longrightarrow> t \<le> v"
    by (auto simp: less_timestamp_def less_eq_timestamp_def)
  show "t \<le> u \<Longrightarrow> u \<le> t \<Longrightarrow> t = u"
    by (auto simp: less_timestamp_def less_eq_timestamp_def)
  show "t \<le> u \<or> u \<le> t"
    by (cases t; cases u) (auto simp: less_timestamp_def less_eq_timestamp_def)
qed

end

lemma string_compare_sgn [simp]:
  "string_compare a b < 0 \<longleftrightarrow> a < b"
  "0 < string_compare a b \<longleftrightarrow> b < a"
  "string_compare a b = 0 \<longleftrightarrow> a = b"
  by (auto simp: string_compare_def)

lemma ts_compare_neg: "ts_compare t u < 0 \<longleftrightarrow> t < u"
  by (auto simp: ts_compare_def less_timestamp_def)

lemma ts_compare_pos: "0 < ts_compare t u \<longleftrightarrow> u < t"
  by (auto simp: ts_compare_def less_timestamp_def)

lemma ts_compare_zero: "ts_compare t u = 0 \<longleftrightarrow> t = u"
  by (cases t; cases u) (auto simp: ts_compare_def)

lemma ts_compare_flip: "ts_compare u t = - ts_compare t u"
  by (auto simp: ts_compare_def string_compare_def)

interpretation hlc: total_compare ts_compare
  by unfold_locales
    (auto simp: ts_compare_zero ts_compare_neg intro: ts_compare_flip)

lemma after_iff [simp]: "after t u \<longleftrightarrow> u < t"
  by (simp add: after_def ts_compare_pos)

text \<open>\<open>Compare\<close> is a total order on timestamps: it is zero only on equal ones, changes
  sign when its arguments are swapped, and is transitive; \<open>After\<close> is its strict part.\<close>

theorem compare_total_order:
  "(ts_compare t u = 0 \<longleftrightarrow> t = u) \<and> ts_compare u t = - ts_compare t u
   \<and> (after u t \<and> after v u \<longrightarrow> after v t) \<and> (t \<noteq> u \<longrightarrow> after t u \<noteq> after u t)"
  using hlc.cmp_trans [of t u v] hlc.cmp_total [of t u] hlc.cmp_asym [of t u]
  by (auto simp: hlc.cmp_zero ts_compare_neg intro: hlc.cmp_flip)

theorem compare_total_order_witness:
  "after (Timestamp 2 0 ''a'') (Timestamp 1 7 ''b'')
   \<and> after (Timestamp 2 0 ''b'') (Timestamp 2 0 ''a'')
   \<and> after (Timestamp 2 0 ''b'') (Timestamp 1 7 ''b'')"
proof -
  have h: "after (Timestamp 2 0 ''a'') (Timestamp 1 7 ''b'')"
    "after (Timestamp 2 0 ''b'') (Timestamp 2 0 ''a'')"
    by (simp_all add: less_timestamp_def)
  with compare_total_order [of "Timestamp 1 7 ''b''" "Timestamp 2 0 ''a''" "Timestamp 2 0 ''b''"]
  show ?thesis by blast
qed

subsection \<open>The sortable text\<close>

lemma logical_bound: "unat (logical t) < 10 ^ 10" "uint (logical t) < 10 ^ 10"
proof -
  have "unat (logical t) < 2 ^ LENGTH(32)" by (rule unsigned_less)
  then show "unat (logical t) < 10 ^ 10" by simp
  have "uint (logical t) < 2 ^ LENGTH(32)" by (rule unsigned_less)
  then show "uint (logical t) < 10 ^ 10" by simp
qed

lemma ts_string_fixed:
  "0 \<le> physical t \<Longrightarrow> physical t < 10 ^ 19 \<Longrightarrow>
   ts_string t = fixed_digits 19 (nat (physical t))
     @ ''-'' @ fixed_digits 10 (unat (logical t)) @ ''-'' @ node_id t"
  using logical_bound(2) [of t] by (simp add: ts_string_def format_pad_fixed)

text \<open>C28: For timestamps with a non-negative \<open>int64\<close> physical part the text form sorts
  byte-wise exactly as \<open>Compare\<close> sorts the timestamps.\<close>

theorem ts_string_sortable:
  assumes "0 \<le> physical t" "physical t < 2 ^ 63" "0 \<le> physical u" "physical u < 2 ^ 63"
  shows "string_compare (ts_string t) (ts_string u) < 0 \<longleftrightarrow> ts_compare t u < 0"
proof -
  have b: "nat (physical t) < 10 ^ 19" "nat (physical u) < 10 ^ 19"
    using assms by simp_all
  have l: "unat (logical t) < 10 ^ 10" "unat (logical u) < 10 ^ 10"
    by (rule logical_bound(1))+
  have "physical t < 10 ^ 19" "physical u < 10 ^ 19" using assms by simp_all
  with assms have "(ts_string t < ts_string u) = (t < u)"
    by (auto simp: ts_string_fixed lex_less_append less_timestamp_def fixed_digits_less [OF b]
        fixed_digits_eq [OF b] fixed_digits_less [OF l] fixed_digits_eq [OF l]
        word_less_nat_alt word_unat_eq_iff eq_nat_nat_iff simp del: fixed_digits.simps)
  then show ?thesis by (simp add: ts_compare_neg)
qed

theorem ts_string_sortable_witness:
  "string_compare (ts_string (Timestamp 9 4 ''b'')) (ts_string (Timestamp 10 0 ''a'')) < 0"
proof -
  have "ts_compare (Timestamp 9 4 ''b'') (Timestamp 10 0 ''a'') < 0"
    by (simp add: ts_compare_def)
  then show ?thesis
    using ts_string_sortable [of "Timestamp 9 4 ''b''" "Timestamp 10 0 ''a''"] by simp
qed

section \<open>Clock\<close>

text \<open>
  \<open>now\<close> of the code's struct is the source of wall-clock time: each operation takes the
  reading \<open>c.now().UnixNano()\<close> as the argument \<open>phys\<close>. The mutex makes each operation
  one step.
\<close>

record clock =
  last_ts :: timestamp
  clock_node :: string

definition NewClock :: "string \<Rightarrow> clock" where
  "NewClock n = \<lparr>last_ts = Timestamp 0 0 [], clock_node = n\<rparr>"

definition Now :: "int \<Rightarrow> clock \<Rightarrow> timestamp \<times> clock" where
  "Now phys c =
     (let l = last_ts c;
          l' = (if phys \<le> physical l
                then Timestamp (physical l) (logical l + 1) (clock_node c)
                else Timestamp phys 0 (clock_node c))
      in (l', c\<lparr>last_ts := l'\<rparr>))"

definition Observe :: "int \<Rightarrow> timestamp \<Rightarrow> clock \<Rightarrow> timestamp \<times> clock" where
  "Observe phys remote c =
     (let l = physical (last_ts c);
          lMsg = physical remote;
          newPhys = max (max phys l) lMsg;
          newLogical =
            (if newPhys = l \<and> newPhys = lMsg then max (logical (last_ts c)) (logical remote) + 1
             else if newPhys = l then logical (last_ts c) + 1
             else if newPhys = lMsg then logical remote + 1
             else 0);
          l' = Timestamp newPhys newLogical (clock_node c)
      in (l', c\<lparr>last_ts := l'\<rparr>))"

subsection \<open>Monotonicity\<close>

text \<open>
  Both operations return the new \<open>last\<close>, keep the node and, unless the 32-bit logical
  counter they increment is full, move strictly forward in the part of the order that does
  not depend on the node.
\<close>

definition ticks_before :: "timestamp \<Rightarrow> timestamp \<Rightarrow> bool" where
  "ticks_before t u \<longleftrightarrow>
     physical t < physical u \<or> physical t = physical u \<and> logical t < logical u"

lemma ticks_before_less: "ticks_before t u \<Longrightarrow> t < u"
  by (auto simp: ticks_before_def less_timestamp_def)

lemma ticks_before_trans [trans]: "ticks_before t u \<Longrightarrow> ticks_before u v \<Longrightarrow> ticks_before t v"
  by (auto simp: ticks_before_def)

definition now_full :: "int \<Rightarrow> clock \<Rightarrow> bool" where
  "now_full phys c \<longleftrightarrow> phys \<le> physical (last_ts c) \<and> logical (last_ts c) = - 1"

definition observe_full :: "int \<Rightarrow> timestamp \<Rightarrow> clock \<Rightarrow> bool" where
  "observe_full phys remote c \<longleftrightarrow>
     (let l = physical (last_ts c); r = physical remote; m = max (max phys l) r in
      m = l \<and> logical (last_ts c) = - 1 \<or> m = r \<and> logical remote = - 1)"

lemma Now_last [simp]: "last_ts (snd (Now phys c)) = fst (Now phys c)"
  by (simp add: Now_def Let_def)

lemma Now_node [simp]:
  "clock_node (snd (Now phys c)) = clock_node c" "node_id (fst (Now phys c)) = clock_node c"
  by (simp_all add: Now_def Let_def)

lemma Observe_last [simp]: "last_ts (snd (Observe phys r c)) = fst (Observe phys r c)"
  by (simp add: Observe_def Let_def)

lemma Observe_node [simp]:
  "clock_node (snd (Observe phys r c)) = clock_node c"
  "node_id (fst (Observe phys r c)) = clock_node c"
  by (simp_all add: Observe_def Let_def)

lemma Now_ticks: "\<not> now_full phys c \<Longrightarrow> ticks_before (last_ts c) (fst (Now phys c))"
  by (auto simp: Now_def Let_def ticks_before_def now_full_def)

lemma word_less_max_Suc:
  "x \<noteq> - 1 \<Longrightarrow> y \<noteq> - 1 \<Longrightarrow> x < max x y + 1 \<and> y < max x y + (1 :: 'a::len word)"
  by (cases "x \<le> y") (auto simp: max_def intro: le_less_trans [of x y] le_less_trans [of y x])

lemma Observe_ticks:
  assumes "\<not> observe_full phys r c"
  shows "ticks_before (last_ts c) (fst (Observe phys r c))"
    and "ticks_before r (fst (Observe phys r c))"
  using assms word_less_max_Suc [of "logical (last_ts c)" "logical r"]
  by (auto simp: Observe_def Let_def ticks_before_def observe_full_def)

lemma Now_full: "now_full phys c \<Longrightarrow> fst (Now phys c) < last_ts c"
  by (auto simp: Now_def Let_def less_timestamp_def now_full_def)

lemma Observe_full:
  "observe_full phys r c \<Longrightarrow>
     fst (Observe phys r c) < last_ts c \<or> fst (Observe phys r c) < r"
  by (auto simp: Observe_def Let_def less_timestamp_def observe_full_def)

text \<open>C26: A local event gives a timestamp strictly after the clock's last one exactly when the
  logical counter need not be incremented past its 32 bits; when it is full and wall time has
  not moved on, the counter wraps to 0 and the timestamp goes backwards.\<close>

theorem Now_monotonic_iff: "after (fst (Now phys c)) (last_ts c) \<longleftrightarrow> \<not> now_full phys c"
  using Now_ticks [of phys c] Now_full [of phys c] ticks_before_less
  by (meson after_iff less_asym)

text \<open>C27: A receive event gives a timestamp strictly after both the clock's last one and the
  received one exactly when the counter it increments is not full.\<close>

theorem Observe_monotonic_iff:
  "(after (fst (Observe phys r c)) (last_ts c) \<and> after (fst (Observe phys r c)) r)
     \<longleftrightarrow> \<not> observe_full phys r c"
  using Observe_ticks [of phys r c] Observe_full [of phys r c] ticks_before_less
  by (meson after_iff less_asym)

subsection \<open>Runs\<close>

text \<open>A clock's life is a sequence of local and receive events, each with its wall-clock reading.\<close>

datatype clock_event = Local_Event int | Receive_Event int timestamp

fun clock_step :: "clock_event \<Rightarrow> clock \<Rightarrow> timestamp \<times> clock" where
  "clock_step (Local_Event phys) c = Now phys c"
| "clock_step (Receive_Event phys r) c = Observe phys r c"

fun event_full :: "clock_event \<Rightarrow> clock \<Rightarrow> bool" where
  "event_full (Local_Event phys) c = now_full phys c"
| "event_full (Receive_Event phys r) c = observe_full phys r c"

fun clock_run :: "clock \<Rightarrow> clock_event list \<Rightarrow> timestamp list \<times> clock" where
  "clock_run c [] = ([], c)"
| "clock_run c (e # es) =
     (let (t, c') = clock_step e c; (ts, c'') = clock_run c' es in (t # ts, c''))"

fun never_full :: "clock \<Rightarrow> clock_event list \<Rightarrow> bool" where
  "never_full c [] = True"
| "never_full c (e # es) = (\<not> event_full e c \<and> never_full (snd (clock_step e c)) es)"

fun received :: "clock_event list \<Rightarrow> timestamp list" where
  "received [] = []"
| "received (Local_Event phys # es) = received es"
| "received (Receive_Event phys r # es) = r # received es"

lemma clock_step_ticks:
  assumes "\<not> event_full e c"
  shows "ticks_before (last_ts c) (fst (clock_step e c))"
    and "\<forall>r \<in> set (received [e]). ticks_before r (fst (clock_step e c))"
    and "last_ts (snd (clock_step e c)) = fst (clock_step e c)"
  using assms by (cases e; simp add: Now_ticks Observe_ticks)+

lemma received_Cons: "set (received (e # es)) = set (received [e]) \<union> set (received es)"
  by (cases e) auto

lemma clock_run_ticks:
  assumes "never_full c es" and "clock_run c es = (ts, c')"
  shows "(\<forall>t \<in> set ts. ticks_before (last_ts c) t \<and> t \<le> last_ts c')
    \<and> (\<forall>r \<in> set (received es). r < last_ts c') \<and> last_ts c \<le> last_ts c' \<and> sorted_wrt (<) ts"
  using assms
proof (induction es arbitrary: c ts)
  case Nil
  then show ?case by simp
next
  case (Cons e es)
  obtain t d where td: "clock_step e c = (t, d)" by fastforce
  obtain us where us: "clock_run d es = (us, c')" and ts: "ts = t # us"
    using Cons.prems(2) td by (auto split: prod.splits)
  have full: "\<not> event_full e c" and rest: "never_full d es"
    using Cons.prems(1) td by auto
  have d: "last_ts d = t" and t: "ticks_before (last_ts c) t"
    and r: "\<forall>r \<in> set (received [e]). r < t"
    using clock_step_ticks [OF full] td by (auto intro: ticks_before_less)
  note IH = Cons.IH [OF rest us, unfolded d]
  have "\<forall>r \<in> set (received (e # es)). r < last_ts c'"
    using r IH by (auto simp: received_Cons [of e es] intro: less_le_trans)
  moreover have "\<forall>u \<in> set us. ticks_before (last_ts c) u \<and> t < u"
    using t IH by (auto intro: ticks_before_trans ticks_before_less)
  ultimately show ?case
    using IH t ts by (auto intro: order_trans dest: ticks_before_less)
qed

text \<open>C25: As long as no event finds the logical counter full, a clock's timestamps strictly
  increase, and its next local timestamp is strictly after every timestamp it has produced or
  received so far.\<close>

theorem clock_run_monotonic:
  assumes "never_full c es" and "clock_run c es = (ts, c')" and "\<not> now_full phys c'"
  shows "sorted_wrt (<) ts
    \<and> (\<forall>t \<in> set ts \<union> set (received es). after (fst (Now phys c')) t)"
proof -
  have "last_ts c' < fst (Now phys c')"
    using Now_ticks [OF assms(3)] by (rule ticks_before_less)
  with clock_run_ticks [OF assms(1,2)] show ?thesis
    by (auto intro: le_less_trans less_trans)
qed

theorem clock_run_monotonic_witness:
  "after (fst (Now 5 (snd (clock_run (NewClock ''a'')
      [Local_Event 7, Receive_Event 6 (Timestamp 9 3 ''b''), Local_Event 8]))))
     (Timestamp 9 3 ''b'')"
proof -
  let ?es = "[Local_Event 7, Receive_Event 6 (Timestamp 9 3 ''b''), Local_Event 8]"
  have "never_full (NewClock ''a'') ?es"
    by (simp add: NewClock_def Now_def Observe_def now_full_def observe_full_def Let_def)
  moreover have "\<not> now_full 5 (snd (clock_run (NewClock ''a'') ?es))"
    by (simp add: NewClock_def Now_def Observe_def now_full_def Let_def)
  ultimately show ?thesis
    using clock_run_monotonic [of "NewClock ''a''" ?es _ _ 5] by (metis UnI2 list.set_intros(1)
        prod.collapse received.simps(2,3))
qed

end
