(* ===== verification/VersionVector.thy ===== *)
theory VersionVector
  imports SyncPrelude
begin

text \<open>
  Version vectors, \<open>internal/vector/vector.go\<close>. A Go \<open>map[string]uint64\<close> is a finite map;
  a \<open>range\<close> loop visits its entries in an order the language leaves open, so each loop is a
  function of the list of entries it visits, and the operations run it on one enumeration.
  What the other components rely on is the locale \<open>version_vectors\<close>.
\<close>

section \<open>Data\<close>

type_synonym vector = "(string, u64) fmap"

datatype relation = Equal | Ancestor | Descendant | Concurrent

text \<open>\<open>v[node]\<close>, which is 0 for a node that is absent.\<close>

abbreviation vget :: "vector \<Rightarrow> string \<Rightarrow> u64" where
  "vget v n \<equiv> fmget v 0 n"

abbreviation entries :: "vector \<Rightarrow> (string \<times> u64) list" where
  "entries v \<equiv> sorted_list_of_fmap v"

section \<open>Operations\<close>

fun copy_loop :: "(string \<times> u64) list \<Rightarrow> vector \<Rightarrow> vector" where
  "copy_loop [] out = out"
| "copy_loop ((k, c) # es) out = copy_loop es (fmupd k c out)"

definition Clone :: "vector \<Rightarrow> vector" where
  "Clone v = copy_loop (entries v) fmempty"

definition Increment :: "vector \<Rightarrow> string \<Rightarrow> vector" where
  "Increment v node = (let out = Clone v in fmupd node (vget out node + 1) out)"

fun compare_own :: "(string \<times> u64) list \<Rightarrow> vector \<Rightarrow> bool \<times> bool \<Rightarrow> bool \<times> bool" where
  "compare_own [] other flags = flags"
| "compare_own ((node, c) # es) other (vGreater, oGreater) =
     (let oc = vget other node in
      compare_own es other
        (if c > oc then (True, oGreater)
         else if c < oc then (vGreater, True)
         else (vGreater, oGreater)))"

fun compare_other :: "(string \<times> u64) list \<Rightarrow> vector \<Rightarrow> bool \<Rightarrow> bool" where
  "compare_other [] v oGreater = oGreater"
| "compare_other ((node, oc) # es) v oGreater =
     compare_other es v
       (if fmlookup v node \<noteq> None then oGreater
        else if oc > 0 then True
        else oGreater)"

definition relation_of :: "bool \<Rightarrow> bool \<Rightarrow> relation" where
  "relation_of vGreater oGreater =
     (if \<not> vGreater \<and> \<not> oGreater then Equal
      else if vGreater \<and> \<not> oGreater then Descendant
      else if \<not> vGreater \<and> oGreater then Ancestor
      else Concurrent)"

text \<open>\<open>Compare\<close> with the two loops run over given enumerations of the two maps.\<close>

definition compare_over ::
    "(string \<times> u64) list \<Rightarrow> (string \<times> u64) list \<Rightarrow> vector \<Rightarrow> vector \<Rightarrow> relation" where
  "compare_over es os v other =
     (let (vGreater, oGreater) = compare_own es other (False, False)
      in relation_of vGreater (compare_other os v oGreater))"

definition Compare :: "vector \<Rightarrow> vector \<Rightarrow> relation" where
  "Compare v other = compare_over (entries v) (entries other) v other"

fun merge_loop :: "(string \<times> u64) list \<Rightarrow> vector \<Rightarrow> vector" where
  "merge_loop [] out = out"
| "merge_loop ((node, c) # es) out =
     merge_loop es (if c > vget out node then fmupd node c out else out)"

definition merge_over :: "(string \<times> u64) list \<Rightarrow> (string \<times> u64) list \<Rightarrow> vector" where
  "merge_over es os = merge_loop os (copy_loop es fmempty)"

definition Merge :: "vector \<Rightarrow> vector \<Rightarrow> vector" where
  "Merge a b = merge_over (entries a) (entries b)"

section \<open>The interface\<close>

text \<open>
  What the conflict resolver relies on: a component-wise reading of the vectors, a comparison
  that reports exactly the component-wise order, and a merge that is the component-wise
  maximum.
\<close>

locale version_vectors =
  fixes get :: "'v \<Rightarrow> 'n \<Rightarrow> 'c::linorder"
    and cmp :: "'v \<Rightarrow> 'v \<Rightarrow> relation"
    and merge :: "'v \<Rightarrow> 'v \<Rightarrow> 'v"
  assumes cmp_rel: "cmp v w = relation_of (\<exists>n. get w n < get v n) (\<exists>n. get v n < get w n)"
    and get_merge: "get (merge v w) n = max (get v n) (get w n)"
begin

lemma cmp_Equal: "cmp v w = Equal \<longleftrightarrow> (\<forall>n. get v n = get w n)"
proof -
  have "(\<exists>n. get v n \<noteq> get w n) \<longleftrightarrow> (\<exists>n. get w n < get v n) \<or> (\<exists>n. get v n < get w n)"
    using neq_iff by blast
  then show ?thesis unfolding cmp_rel relation_of_def by auto
qed

lemma cmp_Ancestor: "cmp v w = Ancestor \<longleftrightarrow> (\<forall>n. get v n \<le> get w n) \<and> (\<exists>n. get v n < get w n)"
  unfolding cmp_rel relation_of_def by (auto simp: not_less)

lemma cmp_Descendant: "cmp v w = Descendant \<longleftrightarrow> (\<forall>n. get w n \<le> get v n) \<and> (\<exists>n. get w n < get v n)"
  unfolding cmp_rel relation_of_def by (auto simp: not_less)

lemma cmp_Concurrent: "cmp v w = Concurrent \<longleftrightarrow> (\<exists>n. get w n < get v n) \<and> (\<exists>n. get v n < get w n)"
  unfolding cmp_rel relation_of_def by auto

lemma cmp_refl [simp]: "cmp v v = Equal"
  by (simp add: cmp_Equal)

lemma cmp_swap:
  "cmp w v = Equal \<longleftrightarrow> cmp v w = Equal"
  "cmp w v = Ancestor \<longleftrightarrow> cmp v w = Descendant"
  "cmp w v = Descendant \<longleftrightarrow> cmp v w = Ancestor"
  "cmp w v = Concurrent \<longleftrightarrow> cmp v w = Concurrent"
  unfolding cmp_rel relation_of_def by auto

lemma cmp_covered: "cmp v w = Equal \<or> cmp v w = Descendant \<longleftrightarrow> (\<forall>n. get w n \<le> get v n)"
  unfolding cmp_rel relation_of_def by (auto simp: not_less)

lemma cmp_covers: "cmp v w = Equal \<or> cmp v w = Ancestor \<longleftrightarrow> (\<forall>n. get v n \<le> get w n)"
  unfolding cmp_rel relation_of_def by (auto simp: not_less)

lemma cmp_Ancestor_trans:
  "cmp u v = Ancestor \<Longrightarrow> cmp v w = Ancestor \<Longrightarrow> cmp u w = Ancestor"
  unfolding cmp_Ancestor by (meson le_less_trans order_trans)

lemma merge_covers: "cmp (merge v w) v \<in> {Equal, Descendant}" "cmp (merge v w) w \<in> {Equal, Descendant}"
  using cmp_covered [of "merge v w" v] cmp_covered [of "merge v w" w] by (auto simp: get_merge)

lemma merge_least:
  "cmp u v \<in> {Equal, Descendant} \<Longrightarrow> cmp u w \<in> {Equal, Descendant} \<Longrightarrow>
   cmp u (merge v w) \<in> {Equal, Descendant}"
  using cmp_covered [of u v] cmp_covered [of u w] cmp_covered [of u "merge v w"]
  by (auto simp: get_merge)

lemma merge_commute: "cmp (merge v w) (merge w v) = Equal"
  by (simp add: cmp_Equal get_merge max.commute)

lemma merge_assoc: "cmp (merge (merge u v) w) (merge u (merge v w)) = Equal"
  by (simp add: cmp_Equal get_merge max.assoc)

lemma merge_idem: "cmp (merge v v) v = Equal"
  by (simp add: cmp_Equal get_merge)

end

section \<open>Correctness of the loops\<close>

lemma fmlookup_copy_loop:
  "distinct (map fst es) \<Longrightarrow>
   fmlookup (copy_loop es out) k = (case map_of es k of Some c \<Rightarrow> Some c | None \<Rightarrow> fmlookup out k)"
proof (induction es out rule: copy_loop.induct)
  case (1 out)
  then show ?case by simp
next
  case (2 k' c es out)
  then have "map_of es k' = None" by (auto simp: map_of_eq_None_iff image_iff)
  with 2 show ?case by (auto split: option.splits)
qed

lemma Clone_id [simp]: "Clone v = v"
  by (rule fmap_ext) (simp add: Clone_def fmlookup_copy_loop split: option.splits)

lemma vget_Increment: "vget (Increment v d) n = (if n = d then vget v n + 1 else vget v n)"
  by (simp add: Increment_def)

lemma compare_own_flags:
  "compare_own es other (vg, og) =
     (vg \<or> (\<exists>(n, c) \<in> set es. vget other n < c), og \<or> (\<exists>(n, c) \<in> set es. c < vget other n))"
  by (induction es arbitrary: vg og) (auto simp: Let_def)

lemma compare_other_flag:
  "compare_other es v og \<longleftrightarrow> og \<or> (\<exists>(n, c) \<in> set es. fmlookup v n = None \<and> 0 < c)"
  by (induction es v og rule: compare_other.induct) auto

lemma entries_of:
  assumes "distinct (map fst es)" and "fmap_of_list es = v"
  shows "(n, c) \<in> set es \<longleftrightarrow> fmlookup v n = Some c"
  using assms by (auto simp: fmlookup_of_list)

lemma own_greater:
  assumes "distinct (map fst es)" and "fmap_of_list es = v"
  shows "(\<exists>(n, c) \<in> set es. vget other n < c) \<longleftrightarrow> (\<exists>n. vget other n < vget v n)"
  using entries_of [OF assms] by (fastforce simp: fmget_def split: option.splits)

lemma other_greater:
  assumes "distinct (map fst es)" and "fmap_of_list es = v"
    and "distinct (map fst os)" and "fmap_of_list os = other"
  shows "(\<exists>(n, c) \<in> set es. c < vget other n)
     \<or> (\<exists>(n, c) \<in> set os. fmlookup v n = None \<and> 0 < c) \<longleftrightarrow> (\<exists>n. vget v n < vget other n)"
  (is "?l1 \<or> ?l2 \<longleftrightarrow> ?r")
proof
  assume "?l1 \<or> ?l2"
  then show ?r
    using entries_of [OF assms(1,2)] entries_of [OF assms(3,4)]
    by (fastforce simp: fmget_def split: option.splits)
next
  assume ?r
  then obtain n where n: "vget v n < vget other n" by blast
  show "?l1 \<or> ?l2"
  proof (cases "fmlookup v n")
    case None
    with n obtain c where "fmlookup other n = Some c" "0 < c"
      by (auto simp: fmget_def split: option.splits)
    with None show ?thesis using entries_of [OF assms(3,4)] by blast
  next
    case (Some c)
    with n have "(n, c) \<in> set es" "c < vget other n"
      using entries_of [OF assms(1,2)] by (auto simp: fmget_Some)
    then show ?thesis by blast
  qed
qed

text \<open>For any enumeration of the two maps the loops compute the component-wise relation.\<close>

lemma compare_over_eq:
  assumes "distinct (map fst es)" and "fmap_of_list es = v"
    and "distinct (map fst os)" and "fmap_of_list os = other"
  shows "compare_over es os v other =
    relation_of (\<exists>n. vget other n < vget v n) (\<exists>n. vget v n < vget other n)"
  using own_greater [OF assms(1,2)] other_greater [OF assms]
  by (simp add: compare_over_def compare_own_flags compare_other_flag)

lemma Compare_eq:
  "Compare v w = relation_of (\<exists>n. vget w n < vget v n) (\<exists>n. vget v n < vget w n)"
  unfolding Compare_def by (rule compare_over_eq) simp_all

lemma vget_merge_loop:
  "distinct (map fst es) \<Longrightarrow>
   vget (merge_loop es out) n = max (vget out n) (case map_of es n of None \<Rightarrow> 0 | Some c \<Rightarrow> c)"
proof (induction es out rule: merge_loop.induct)
  case (1 out)
  then show ?case by (simp add: max_def word_le_0_iff)
next
  case (2 k c es out)
  then have "map_of es k = None" by (auto simp: map_of_eq_None_iff image_iff)
  with 2 show ?case by (auto simp: max_def word_gt_0 split: option.splits)
qed

lemma vget_merge_over:
  assumes "distinct (map fst es)" and "fmap_of_list es = v"
    and "distinct (map fst os)" and "fmap_of_list os = w"
  shows "vget (merge_over es os) n = max (vget v n) (vget w n)"
proof -
  have "copy_loop es fmempty = v"
    using assms(1,2)
    by (intro fmap_ext) (auto simp: fmlookup_copy_loop fmlookup_of_list split: option.splits)
  moreover have "vget w n = (case map_of os n of None \<Rightarrow> 0 | Some c \<Rightarrow> c)"
    using assms(4) by (auto simp: fmget_def fmlookup_of_list)
  ultimately show ?thesis
    using assms(3) by (simp add: merge_over_def vget_merge_loop)
qed

interpretation vv: version_vectors vget Compare Merge
proof unfold_locales
  fix v w :: vector and n
  show "Compare v w = relation_of (\<exists>n. vget w n < vget v n) (\<exists>n. vget v n < vget w n)"
    by (rule Compare_eq)
  show "vget (Merge v w) n = max (vget v n) (vget w n)"
    unfolding Merge_def by (rule vget_merge_over) simp_all
qed

section \<open>Properties\<close>

text \<open>C29: Whatever order the two \<open>range\<close> loops visit the maps' entries in, \<open>Compare\<close>
  answers \<open>Equal\<close>, \<open>Ancestor\<close>, \<open>Descendant\<close> or \<open>Concurrent\<close> exactly according to
  whether each vector has a counter greater than the other's.\<close>

theorem compare_any_order:
  assumes "distinct (map fst es)" and "fmap_of_list es = v"
    and "distinct (map fst os)" and "fmap_of_list os = w"
  shows "compare_over es os v w = Compare v w
    \<and> Compare v w = relation_of (\<exists>n. vget w n < vget v n) (\<exists>n. vget v n < vget w n)"
  using compare_over_eq [OF assms] by (simp add: Compare_eq)

theorem compare_any_order_witness:
  "compare_over [(''b'', 1), (''a'', 2)] [(''a'', 3)]
     (fmap_of_list [(''b'', 1), (''a'', 2)]) (fmap_of_list [(''a'', 3)]) = Concurrent"
proof -
  let ?v = "fmap_of_list [(''b'', 1), (''a'', 2)] :: vector"
  let ?w = "fmap_of_list [(''a'', 3)] :: vector"
  have "compare_over [(''b'', 1), (''a'', 2)] [(''a'', 3)] ?v ?w = Compare ?v ?w"
    using compare_any_order [of "[(''b'', 1), (''a'', 2)]" ?v "[(''a'', 3)]" ?w] by simp
  also have "Compare ?v ?w = Concurrent"
    by code_simp
  finally show ?thesis .
qed

text \<open>C30: \<open>Merge\<close> is the least vector that covers both inputs, whatever order the loops run
  in; so up to \<open>Compare\<close> it is commutative, associative and idempotent.\<close>

theorem merge_least_upper_bound:
  "Compare (Merge a b) a \<in> {Equal, Descendant} \<and> Compare (Merge a b) b \<in> {Equal, Descendant}
   \<and> (Compare u a \<in> {Equal, Descendant} \<longrightarrow> Compare u b \<in> {Equal, Descendant} \<longrightarrow>
       Compare u (Merge a b) \<in> {Equal, Descendant})
   \<and> Compare (Merge a b) (Merge b a) = Equal
   \<and> Compare (Merge (Merge a b) c) (Merge a (Merge b c)) = Equal
   \<and> Compare (Merge a a) a = Equal"
  using vv.merge_covers [of a b] vv.merge_least [of u a b]
  by (simp add: vv.merge_commute vv.merge_assoc vv.merge_idem)

theorem merge_least_upper_bound_witness:
  "Compare (fmap_of_list [(''a'', 2), (''b'', 7)])
     (Merge (fmap_of_list [(''a'', 2)]) (fmap_of_list [(''b'', 5)])) \<in> {Equal, Descendant}"
proof -
  let ?u = "fmap_of_list [(''a'', 2), (''b'', 7)] :: vector"
  have "Compare ?u (fmap_of_list [(''a'', 2)]) \<in> {Equal, Descendant}"
    "Compare ?u (fmap_of_list [(''b'', 5)]) \<in> {Equal, Descendant}"
    by code_simp+
  then show ?thesis
    using merge_least_upper_bound [of "fmap_of_list [(''a'', 2)]" "fmap_of_list [(''b'', 5)]" ?u]
    by blast
qed

lemma Compare_Increment:
  "Compare v (Increment v d) = (if vget v d = - 1 then Descendant else Ancestor)"
proof (cases "vget v d = - 1")
  case True
  then show ?thesis by (auto simp: vv.cmp_Descendant vget_Increment)
next
  case False
  then have "vget v d < vget v d + 1" by simp
  with False show ?thesis by (auto simp: vv.cmp_Ancestor vget_Increment intro: less_imp_le)
qed

text \<open>C31: A write that increments its node's counter gives a strict descendant of the vector it
  started from, exactly when that 64-bit counter is not full; a full counter wraps to 0 and the
  new vector is an ancestor of the old one.\<close>

theorem increment_advances:
  "Compare v (Increment v d) = (if vget v d = - 1 then Descendant else Ancestor)"
  by (rule Compare_Increment)

section \<open>Vectors without zero entries\<close>

text \<open>
  A vector built by \<open>Increment\<close> and \<open>Merge\<close> has no entry with counter 0, so two of them
  with the same counters are the same map.
\<close>

definition no_zero :: "vector \<Rightarrow> bool" where
  "no_zero v \<longleftrightarrow> (\<forall>n. fmlookup v n \<noteq> Some 0)"

lemma no_zero_empty [simp]: "no_zero fmempty"
  by (simp add: no_zero_def)

lemma no_zero_upd: "no_zero v \<Longrightarrow> c \<noteq> 0 \<Longrightarrow> no_zero (fmupd n c v)"
  by (simp add: no_zero_def)

lemma no_zero_Increment: "no_zero v \<Longrightarrow> vget v d \<noteq> - 1 \<Longrightarrow> no_zero (Increment v d)"
  unfolding Increment_def Let_def Clone_id
  by (rule no_zero_upd) (auto simp: add_eq_0_iff2)

lemma no_zero_merge_loop: "no_zero out \<Longrightarrow> no_zero (merge_loop es out)"
proof (induction es out rule: merge_loop.induct)
  case (1 out)
  then show ?case by simp
next
  case (2 n c es out)
  have "vget out n < c \<Longrightarrow> no_zero (fmupd n c out)"
    using 2(2) by (intro no_zero_upd) auto
  with 2 show ?case by simp
qed

lemma no_zero_Merge: "no_zero a \<Longrightarrow> no_zero (Merge a b)"
  unfolding Merge_def merge_over_def using Clone_id [of a]
  unfolding Clone_def by (simp add: no_zero_merge_loop)

lemma no_zero_eqI:
  assumes "no_zero v" and "no_zero w" and "\<And>n. vget v n = vget w n"
  shows "v = w"
proof (rule fmap_ext)
  fix n
  show "fmlookup v n = fmlookup w n"
    using assms(3) [of n] assms(1,2)
    by (auto simp: no_zero_def fmget_def split: option.splits)
qed

end
