(* ===== verification/Oplog.thy ===== *)
theory Oplog
  imports Hlc VersionVector
begin

text \<open>
  The two data types replicas exchange and keep: the operation (\<open>internal/oplog/op.go\<close>) with
  its validation, and the materialised record (\<open>internal/record/record.go\<close>).
\<close>

section \<open>Operations\<close>

text \<open>\<open>Type\<close> is a Go string type with three constants; any other text can be a value of it.\<close>

definition Create :: string where
  "Create = ''create''"

definition Update :: string where
  "Update = ''update''"

definition Delete :: string where
  "Delete = ''delete''"

text \<open>
  \<open>Payload\<close> is a \<open>json.RawMessage\<close>: \<open>None\<close> for a nil slice, the bytes otherwise.
\<close>

record op =
  op_id :: string
  op_device :: string
  op_collection :: string
  op_record :: string
  op_type :: string
  op_payload :: "string option"
  op_vv :: vector
  op_hlc :: timestamp
  op_seq :: int

definition valid_type :: "string \<Rightarrow> bool" where
  "valid_type t \<longleftrightarrow> t = Create \<or> t = Update \<or> t = Delete"

text \<open>\<open>Validate\<close>: nil is \<open>None\<close>.\<close>

definition Validate :: "op \<Rightarrow> go_error option" where
  "Validate x =
     (if op_id x = [] then Some (ErrNew ''oplog: missing op id'')
      else if op_device x = [] then Some (ErrNew ''oplog: missing device id'')
      else if op_collection x = [] then Some (ErrNew ''oplog: missing collection'')
      else if op_record x = [] then Some (ErrNew ''oplog: missing record id'')
      else if op_type x \<noteq> Create \<and> op_type x \<noteq> Update \<and> op_type x \<noteq> Delete
        then Some (ErrNew ''oplog: invalid op type'')
      else if op_type x \<noteq> Delete \<and> op_payload x = None
        then Some (ErrNew ''oplog: missing payload for non-delete op'')
      else if node_id (op_hlc x) = [] then Some (ErrNew ''oplog: missing hlc timestamp'')
      else None)"

text \<open>\<open>Validate\<close> accepts exactly the operations that have an id, a device, a collection, a
  record id, one of the three types, a payload unless they delete, and a clock node.\<close>

theorem Validate_accepts_iff:
  "Validate x = None \<longleftrightarrow>
     op_id x \<noteq> [] \<and> op_device x \<noteq> [] \<and> op_collection x \<noteq> [] \<and> op_record x \<noteq> []
     \<and> op_type x \<in> {Create, Update, Delete}
     \<and> \<not> (op_type x \<in> {Create, Update} \<and> op_payload x = None)
     \<and> node_id (op_hlc x) \<noteq> []"
  by (auto simp: Validate_def Create_def Update_def Delete_def)

lemma Validate_None_iff:
  "Validate x = None \<longleftrightarrow>
     op_id x \<noteq> [] \<and> op_device x \<noteq> [] \<and> op_collection x \<noteq> [] \<and> op_record x \<noteq> []
     \<and> valid_type (op_type x) \<and> (op_type x = Delete \<or> op_payload x \<noteq> None)
     \<and> node_id (op_hlc x) \<noteq> []"
  by (auto simp: Validate_def valid_type_def)

lemma Validate_seq [simp]: "Validate (x\<lparr>op_seq := s\<rparr>) = Validate x"
  by (simp add: Validate_def)

text \<open>The record an operation changes.\<close>

definition op_key :: "op \<Rightarrow> string \<times> string" where
  "op_key x = (op_collection x, op_record x)"

lemma op_key_seq [simp]: "op_key (x\<lparr>op_seq := s\<rparr>) = op_key x"
  by (simp add: op_key_def)

text \<open>
  An operation without its checkpoint: a replica's copies of one operation differ in
  \<open>ServerSeq\<close> only.
\<close>

definition core :: "op \<Rightarrow> op" where
  "core x = x\<lparr>op_seq := 0\<rparr>"

lemma core_simps [simp]:
  "op_id (core x) = op_id x" "op_device (core x) = op_device x"
  "op_collection (core x) = op_collection x" "op_record (core x) = op_record x"
  "op_type (core x) = op_type x" "op_payload (core x) = op_payload x"
  "op_vv (core x) = op_vv x" "op_hlc (core x) = op_hlc x" "op_key (core x) = op_key x"
  "core (core x) = core x" "core (x\<lparr>op_seq := s\<rparr>) = core x"
  by (simp_all add: core_def op_key_def)

section \<open>Records\<close>

record record_state =
  rec_collection :: string
  rec_id :: string
  rec_payload :: "string option"
  rec_deleted :: bool
  rec_vv :: vector
  rec_hlc :: timestamp
  rec_winner :: string

text \<open>Go's \<open>record.Record{}\<close>.\<close>

definition zero_record :: record_state where
  "zero_record = \<lparr>rec_collection = [], rec_id = [], rec_payload = None, rec_deleted = False,
     rec_vv = fmempty, rec_hlc = Timestamp 0 0 [], rec_winner = []\<rparr>"

definition rec_key :: "record_state \<Rightarrow> string \<times> string" where
  "rec_key r = (rec_collection r, rec_id r)"

end
