(* ===== verification/ConflictResolution.thy ===== *)
theory ConflictResolution
  imports Oplog
begin

text \<open>
  The conflict resolver, \<open>internal/conflict/conflict.go\<close>, and why folding operations through
  it converges: a fold's result depends on the set of operations only, because it is always
  the operation with the greatest timestamp together with the join of the vectors.
\<close>

section \<open>Resolve\<close>

record decision =
  dec_record :: record_state
  dec_conflicted :: bool
  dec_winner :: string
  dec_loser :: string

definition fromOp :: "op \<Rightarrow> record_state" where
  "fromOp x = \<lparr>rec_collection = op_collection x, rec_id = op_record x,
     rec_payload = op_payload x, rec_deleted = (op_type x = Delete),
     rec_vv = op_vv x, rec_hlc = op_hlc x, rec_winner = op_id x\<rparr>"

definition Resolve :: "record_state \<Rightarrow> bool \<Rightarrow> op \<Rightarrow> decision" where
  "Resolve existing existsAlready x =
     (if \<not> existsAlready
      then \<lparr>dec_record = fromOp x, dec_conflicted = False, dec_winner = op_id x, dec_loser = []\<rparr>
      else
        let keep = \<lparr>dec_record = existing, dec_conflicted = False,
                     dec_winner = rec_winner existing, dec_loser = []\<rparr>
        in case Compare (rec_vv existing) (op_vv x) of
             Equal \<Rightarrow> keep
           | Descendant \<Rightarrow> keep
           | Ancestor \<Rightarrow>
               \<lparr>dec_record = fromOp x, dec_conflicted = False, dec_winner = op_id x, dec_loser = []\<rparr>
           | Concurrent \<Rightarrow>
               let merged = Merge (rec_vv existing) (op_vv x)
               in if after (op_hlc x) (rec_hlc existing)
                  then \<lparr>dec_record = (fromOp x)\<lparr>rec_vv := merged\<rparr>, dec_conflicted = True,
                         dec_winner = op_id x, dec_loser = rec_winner existing\<rparr>
                  else \<lparr>dec_record = existing\<lparr>rec_vv := merged\<rparr>, dec_conflicted = True,
                         dec_winner = rec_winner existing, dec_loser = op_id x\<rparr>)"

lemma fromOp_simps [simp]:
  "rec_collection (fromOp x) = op_collection x" "rec_id (fromOp x) = op_record x"
  "rec_payload (fromOp x) = op_payload x" "rec_deleted (fromOp x) = (op_type x = Delete)"
  "rec_vv (fromOp x) = op_vv x" "rec_hlc (fromOp x) = op_hlc x" "rec_winner (fromOp x) = op_id x"
  "fromOp (core x) = fromOp x" "fromOp (x\<lparr>op_seq := s\<rparr>) = fromOp x"
  by (simp_all add: fromOp_def core_def)

lemma Resolve_core [simp]:
  "Resolve r e (core x) = Resolve r e x" "Resolve r e (x\<lparr>op_seq := s\<rparr>) = Resolve r e x"
  by (simp_all add: Resolve_def core_def fromOp_def Let_def split: relation.split)

lemma Resolve_first: "Resolve r False x =
  \<lparr>dec_record = fromOp x, dec_conflicted = False, dec_winner = op_id x, dec_loser = []\<rparr>"
  by (simp add: Resolve_def)

lemma Resolve_stale: "Compare (rec_vv r) (op_vv x) \<in> {Equal, Descendant} \<Longrightarrow> Resolve r True x =
  \<lparr>dec_record = r, dec_conflicted = False, dec_winner = rec_winner r, dec_loser = []\<rparr>"
  by (auto simp: Resolve_def)

lemma Resolve_forward: "Compare (rec_vv r) (op_vv x) = Ancestor \<Longrightarrow> Resolve r True x =
  \<lparr>dec_record = fromOp x, dec_conflicted = False, dec_winner = op_id x, dec_loser = []\<rparr>"
  by (simp add: Resolve_def)

lemma Resolve_concurrent: "Compare (rec_vv r) (op_vv x) = Concurrent \<Longrightarrow> Resolve r True x =
  (if rec_hlc r < op_hlc x
   then \<lparr>dec_record = (fromOp x)\<lparr>rec_vv := Merge (rec_vv r) (op_vv x)\<rparr>, dec_conflicted = True,
          dec_winner = op_id x, dec_loser = rec_winner r\<rparr>
   else \<lparr>dec_record = r\<lparr>rec_vv := Merge (rec_vv r) (op_vv x)\<rparr>, dec_conflicted = True,
          dec_winner = rec_winner r, dec_loser = op_id x\<rparr>)"
  by (simp add: Resolve_def Let_def)

lemmas Resolve_branches = Resolve_first Resolve_stale Resolve_forward Resolve_concurrent

text \<open>C23: \<open>Resolve\<close> reports a conflict exactly when the record exists and the two vectors are
  concurrent; then the side with the strictly greater clock is the winner, the other one the
  loser; without a conflict no loser is named, and a record is kept unchanged exactly when it
  already covers the operation.\<close>

theorem Resolve_verdict:
  "let d = Resolve r e x; c = Compare (rec_vv r) (op_vv x) in
     dec_conflicted d = (e \<and> c = Concurrent)
   \<and> (dec_conflicted d \<longrightarrow> (dec_winner d, dec_loser d) =
        (if after (op_hlc x) (rec_hlc r) then (op_id x, rec_winner r) else (rec_winner r, op_id x)))
   \<and> (\<not> dec_conflicted d \<longrightarrow> dec_loser d = [] \<and>
        dec_record d = (if e \<and> c \<in> {Equal, Descendant} then r else fromOp x))
   \<and> rec_winner (dec_record d) = dec_winner d"
  by (cases e; cases "Compare (rec_vv r) (op_vv x)")
    (simp_all add: Resolve_branches Let_def)

theorem Resolve_verdict_witness:
  "dec_winner (Resolve (fromOp \<lparr>op_id = ''x'', op_device = ''a'', op_collection = ''c'',
       op_record = ''r'', op_type = Update, op_payload = Some ''1'',
       op_vv = fmap_of_list [(''a'', 1)], op_hlc = Timestamp 5 0 ''a'', op_seq = 0\<rparr>) True
     \<lparr>op_id = ''y'', op_device = ''b'', op_collection = ''c'',
       op_record = ''r'', op_type = Delete, op_payload = None,
       op_vv = fmap_of_list [(''b'', 1)], op_hlc = Timestamp 4 0 ''b'', op_seq = 0\<rparr>) = ''x''"
proof -
  let ?x = "\<lparr>op_id = ''x'', op_device = ''a'', op_collection = ''c'',
       op_record = ''r'', op_type = Update, op_payload = Some ''1'',
       op_vv = fmap_of_list [(''a'', 1)], op_hlc = Timestamp 5 0 ''a'', op_seq = 0\<rparr>"
  let ?y = "\<lparr>op_id = ''y'', op_device = ''b'', op_collection = ''c'',
       op_record = ''r'', op_type = Delete, op_payload = None,
       op_vv = fmap_of_list [(''b'', 1)], op_hlc = Timestamp 4 0 ''b'', op_seq = 0\<rparr>"
  have "Compare (fmap_of_list [(''a'', 1)]) (fmap_of_list [(''b'', 1)]) = Concurrent"
    by code_simp
  then show ?thesis
    using Resolve_verdict [of "fromOp ?x" True ?y] by (simp add: Let_def less_timestamp_def)
qed

section \<open>Folding operations\<close>

text \<open>
  Read a record, resolve an operation against it, write the result back: what the server's
  push, the client's pull and the client's local write do with every operation they accept.
  \<open>None\<close> is a record no operation has touched.
\<close>

definition materialize :: "record_state option \<Rightarrow> op \<Rightarrow> record_state option" where
  "materialize r x =
     Some (dec_record (Resolve (case r of None \<Rightarrow> zero_record | Some e \<Rightarrow> e) (r \<noteq> None) x))"

definition fold_ops :: "op list \<Rightarrow> record_state option" where
  "fold_ops xs = foldl materialize None xs"

lemma materialize_core [simp]: "materialize r (core x) = materialize r x"
  by (simp add: materialize_def)

lemma materialize_Some [simp]: "materialize r x \<noteq> None" "\<exists>e. materialize r x = Some e"
  by (simp_all add: materialize_def)

lemma fold_ops_Nil [simp]: "fold_ops [] = None"
  by (simp add: fold_ops_def)

lemma fold_ops_snoc [simp]: "fold_ops (xs @ [x]) = materialize (fold_ops xs) x"
  by (simp add: fold_ops_def)

text \<open>
  What the operations of well-behaved devices satisfy: whoever has seen a device's counter for
  a write has seen that write, so its vector covers the write's vector and its clock is past
  the write's clock.
\<close>

definition covers :: "op \<Rightarrow> op \<Rightarrow> bool" where
  "covers y x \<longleftrightarrow> (\<forall>n. vget (op_vv x) n \<le> vget (op_vv y) n)"

definition sees :: "op \<Rightarrow> op \<Rightarrow> bool" where
  "sees y x \<longleftrightarrow> vget (op_vv x) (op_device x) \<le> vget (op_vv y) (op_device x)"

definition causal_ops :: "op set \<Rightarrow> bool" where
  "causal_ops S \<longleftrightarrow>
     (\<forall>x \<in> S. \<forall>y \<in> S. sees y x \<longrightarrow> covers y x \<and> (x = y \<or> op_hlc x < op_hlc y))
     \<and> inj_on op_hlc S \<and> (\<forall>x \<in> S. no_zero (op_vv x))"

lemma causal_opsD:
  assumes "causal_ops S" and "x \<in> S" and "y \<in> S"
  shows "sees y x \<Longrightarrow> covers y x" "sees y x \<Longrightarrow> op_hlc x \<le> op_hlc y"
    and "op_hlc x = op_hlc y \<Longrightarrow> x = y" "no_zero (op_vv x)"
  using assms unfolding causal_ops_def inj_on_def by (blast intro: less_imp_le order_refl)+

lemma causal_ops_subset: "causal_ops S \<Longrightarrow> T \<subseteq> S \<Longrightarrow> causal_ops T"
  unfolding causal_ops_def by (blast intro: inj_on_subset)

lemma covers_sees: "covers y x \<Longrightarrow> sees y x"
  by (simp add: covers_def sees_def)

text \<open>
  The record that summarises a set of operations: the one with the greatest clock, with the
  component-wise maximum of all vectors.
\<close>

definition summarises :: "op set \<Rightarrow> record_state \<Rightarrow> bool" where
  "summarises S r \<longleftrightarrow>
     (\<exists>w \<in> S. r = (fromOp w)\<lparr>rec_vv := rec_vv r\<rparr> \<and> (\<forall>x \<in> S. op_hlc x \<le> op_hlc w))
     \<and> (\<forall>n. (\<forall>x \<in> S. vget (op_vv x) n \<le> vget (rec_vv r) n)
          \<and> (\<exists>x \<in> S. vget (rec_vv r) n = vget (op_vv x) n))
     \<and> no_zero (rec_vv r)"

definition summary :: "op set \<Rightarrow> record_state option \<Rightarrow> bool" where
  "summary S r = (case r of None \<Rightarrow> S = {} | Some e \<Rightarrow> summarises S e)"

lemma summarisesI [record_intros]:
  assumes "w \<in> S" and "r = (fromOp w)\<lparr>rec_vv := rec_vv r\<rparr>" and "\<And>x. x \<in> S \<Longrightarrow> op_hlc x \<le> op_hlc w"
    and "\<And>n x. x \<in> S \<Longrightarrow> vget (op_vv x) n \<le> vget (rec_vv r) n"
    and "\<And>n. \<exists>x \<in> S. vget (rec_vv r) n = vget (op_vv x) n" and "no_zero (rec_vv r)"
  shows "summarises S r"
  using assms unfolding summarises_def by blast

lemma summarisesE:
  assumes "summarises S r"
  obtains w where "w \<in> S" "r = (fromOp w)\<lparr>rec_vv := rec_vv r\<rparr>" "\<forall>x \<in> S. op_hlc x \<le> op_hlc w"
    "rec_hlc r = op_hlc w" "rec_winner r = op_id w"
proof -
  obtain w where w: "w \<in> S" "r = (fromOp w)\<lparr>rec_vv := rec_vv r\<rparr>" "\<forall>x \<in> S. op_hlc x \<le> op_hlc w"
    using assms unfolding summarises_def by blast
  have "rec_hlc r = op_hlc w" "rec_winner r = op_id w"
    using arg_cong [OF w(2), of rec_hlc] arg_cong [OF w(2), of rec_winner] by simp_all
  with w show ?thesis by (intro that)
qed

lemma summarises_upper: "summarises S r \<Longrightarrow> x \<in> S \<Longrightarrow> vget (op_vv x) n \<le> vget (rec_vv r) n"
  unfolding summarises_def by blast

lemma summarises_attained: "summarises S r \<Longrightarrow> \<exists>x \<in> S. vget (rec_vv r) n = vget (op_vv x) n"
  unfolding summarises_def by blast

lemma summarises_no_zero: "summarises S r \<Longrightarrow> no_zero (rec_vv r)"
  unfolding summarises_def by blast

lemma summarises_single: "no_zero (op_vv x) \<Longrightarrow> summarises {x} (fromOp x)"
  by (rule summarisesI [of x]) simp_all

text \<open>A record that covers an operation summarises it already: someone who was folded has seen it.\<close>

lemma summarises_stale:
  assumes S: "summarises S r" and ok: "causal_ops (insert x S)"
    and cov: "\<And>n. vget (op_vv x) n \<le> vget (rec_vv r) n"
  shows "summarises (insert x S) r"
proof -
  obtain w where w: "w \<in> S" "r = (fromOp w)\<lparr>rec_vv := rec_vv r\<rparr>" "\<forall>y \<in> S. op_hlc y \<le> op_hlc w"
    by (rule summarisesE [OF S])
  obtain s where s: "s \<in> S" "vget (rec_vv r) (op_device x) = vget (op_vv s) (op_device x)"
    using summarises_attained [OF S] by blast
  with cov [of "op_device x"] have "sees s x" by (simp add: sees_def)
  then have "op_hlc x \<le> op_hlc s" using causal_opsD(2) [OF ok] s(1) by blast
  also have "op_hlc s \<le> op_hlc w" using w(3) s(1) by blast
  finally have "op_hlc x \<le> op_hlc w" .
  show ?thesis
  proof (rule summarisesI [of w])
    show "w \<in> insert x S" "r = (fromOp w)\<lparr>rec_vv := rec_vv r\<rparr>" using w by blast+
    show "op_hlc y \<le> op_hlc w" if "y \<in> insert x S" for y
      using that w(3) \<open>op_hlc x \<le> op_hlc w\<close> by blast
    show "vget (op_vv y) n \<le> vget (rec_vv r) n" if "y \<in> insert x S" for y n
      using that cov summarises_upper [OF S] by blast
    show "\<exists>y \<in> insert x S. vget (rec_vv r) n = vget (op_vv y) n" for n
      using summarises_attained [OF S] by blast
    show "no_zero (rec_vv r)" by (rule summarises_no_zero [OF S])
  qed
qed

text \<open>An operation that covers the record covers, and is later than, everything folded so far.\<close>

lemma summarises_forward:
  assumes S: "summarises S r" and ok: "causal_ops (insert x S)"
    and cov: "\<And>n. vget (rec_vv r) n \<le> vget (op_vv x) n"
  shows "summarises (insert x S) (fromOp x)"
proof -
  have c: "covers x y" if "y \<in> S" for y
    using summarises_upper [OF S that] cov unfolding covers_def by (blast intro: order_trans)
  have "op_hlc y \<le> op_hlc x" if "y \<in> S" for y
    using causal_opsD(2) [OF ok] that covers_sees [OF c [OF that]] by blast
  with c ok show ?thesis
    by (intro summarisesI [of x]) (auto simp: covers_def dest: causal_opsD(4))
qed

lemma summarises_merge:
  assumes S: "summarises S r" and ok: "causal_ops (insert x S)"
    and w: "w \<in> insert x S" "\<And>y. y \<in> insert x S \<Longrightarrow> op_hlc y \<le> op_hlc w"
    and r': "r' = (fromOp w)\<lparr>rec_vv := Merge (rec_vv r) (op_vv x)\<rparr>"
  shows "summarises (insert x S) r'"
proof (rule summarisesI [OF w(1) _ w(2)])
  show "r' = (fromOp w)\<lparr>rec_vv := rec_vv r'\<rparr>" by (simp add: r')
  show "no_zero (rec_vv r')"
    using summarises_no_zero [OF S] by (simp add: r' no_zero_Merge)
  fix n
  show "vget (op_vv y) n \<le> vget (rec_vv r') n" if "y \<in> insert x S" for y
    using that summarises_upper [OF S] by (auto simp: r' vv.get_merge intro: max.coboundedI1)
  show "\<exists>y \<in> insert x S. vget (rec_vv r') n = vget (op_vv y) n"
    using summarises_attained [OF S, of n] by (auto simp: r' vv.get_merge max_def)
qed

lemma summarises_resolve:
  assumes S: "summarises S r" and ok: "causal_ops (insert x S)"
  shows "summarises (insert x S) (dec_record (Resolve r True x))"
proof (cases "Compare (rec_vv r) (op_vv x)")
  case Equal
  then show ?thesis
    using summarises_stale [OF S ok] by (simp add: Resolve_stale vv.cmp_Equal)
next
  case Descendant
  then have "\<And>n. vget (op_vv x) n \<le> vget (rec_vv r) n" by (simp add: vv.cmp_Descendant)
  with Descendant show ?thesis
    using summarises_stale [OF S ok] by (simp add: Resolve_stale)
next
  case Ancestor
  then have "\<And>n. vget (rec_vv r) n \<le> vget (op_vv x) n" by (simp add: vv.cmp_Ancestor)
  with Ancestor show ?thesis
    using summarises_forward [OF S ok] by (simp add: Resolve_forward)
next
  case Concurrent
  obtain w where w: "w \<in> S" "r = (fromOp w)\<lparr>rec_vv := rec_vv r\<rparr>" "\<forall>y \<in> S. op_hlc y \<le> op_hlc w"
    "rec_hlc r = op_hlc w"
    by (rule summarisesE [OF S])
  show ?thesis
  proof (cases "op_hlc w < op_hlc x")
    case True
    with w(3) have "\<And>y. y \<in> insert x S \<Longrightarrow> op_hlc y \<le> op_hlc x"
      by (auto intro: order_trans less_imp_le)
    from summarises_merge [OF S ok _ this refl] show ?thesis
      using Concurrent True w(4) by (simp add: Resolve_concurrent)
  next
    case False
    with w(3) have "\<And>y. y \<in> insert x S \<Longrightarrow> op_hlc y \<le> op_hlc w" by auto
    moreover have "r\<lparr>rec_vv := v\<rparr> = (fromOp w)\<lparr>rec_vv := v\<rparr>" for v
      by (subst w(2)) simp
    ultimately show ?thesis
      using Concurrent False w(1,4) summarises_merge [OF S ok, of w]
      by (simp add: Resolve_concurrent)
  qed
qed

lemma summarises_unique:
  assumes ok: "causal_ops S" and r: "summarises S r" and q: "summarises S q"
  shows "r = q"
proof -
  obtain w where w: "w \<in> S" "r = (fromOp w)\<lparr>rec_vv := rec_vv r\<rparr>" "\<forall>x \<in> S. op_hlc x \<le> op_hlc w"
    by (rule summarisesE [OF r])
  obtain u where u: "u \<in> S" "q = (fromOp u)\<lparr>rec_vv := rec_vv q\<rparr>" "\<forall>x \<in> S. op_hlc x \<le> op_hlc u"
    by (rule summarisesE [OF q])
  have "op_hlc w = op_hlc u" using w(1,3) u(1,3) by (blast intro: antisym)
  then have "w = u" using causal_opsD(3) [OF ok w(1) u(1)] by simp
  moreover have "rec_vv r = rec_vv q"
  proof (rule no_zero_eqI)
    fix n
    show "vget (rec_vv r) n = vget (rec_vv q) n"
      using summarises_attained [OF r, of n] summarises_attained [OF q, of n]
        summarises_upper [OF r] summarises_upper [OF q] by (metis antisym)
  qed (use r q in \<open>auto dest: summarises_no_zero\<close>)
  ultimately show ?thesis using w(2) u(2) by metis
qed

section \<open>Order-free folds\<close>

text \<open>
  The shape of the argument, apart from records: a fold whose state is determined by the set of
  items it has seen does not depend on their order and absorbs repeated items.
\<close>

locale order_free_fold =
  fixes step :: "'s \<Rightarrow> 'x \<Rightarrow> 's"
    and start :: "'s"
    and holds :: "'x set \<Rightarrow> 's \<Rightarrow> bool"
    and ok :: "'x set \<Rightarrow> bool"
  assumes holds_start: "holds {} start"
    and holds_step: "ok (insert x S) \<Longrightarrow> holds S s \<Longrightarrow> holds (insert x S) (step s x)"
    and ok_subset: "ok S \<Longrightarrow> T \<subseteq> S \<Longrightarrow> ok T"
    and holds_unique: "ok S \<Longrightarrow> holds S s \<Longrightarrow> holds S t \<Longrightarrow> s = t"
begin

lemma fold_holds: "ok (set xs) \<Longrightarrow> holds (set xs) (foldl step start xs)"
proof (induction xs rule: rev_induct)
  case Nil
  then show ?case by (simp add: holds_start)
next
  case (snoc x xs)
  then have "ok (set xs)" using ok_subset by (metis set_append sup_ge1)
  with snoc show ?case using holds_step [of x "set xs"] by simp
qed

lemma fold_set:
  assumes "ok (set xs)" and "set ys = set xs"
  shows "foldl step start ys = foldl step start xs"
  using fold_holds [of xs] fold_holds [of ys] holds_unique assms by metis

lemma step_absorbs:
  assumes "ok S" and "holds S s" and "x \<in> S"
  shows "step s x = s"
  using holds_step [of x S s] holds_unique assms by (metis insert_absorb)

lemma fold_absorbs: "ok (set xs) \<Longrightarrow> x \<in> set xs \<Longrightarrow> step (foldl step start xs) x = foldl step start xs"
  using step_absorbs fold_holds by blast

end

lemma summary_materialize:
  "causal_ops (insert x S) \<Longrightarrow> summary S r \<Longrightarrow> summary (insert x S) (materialize r x)"
  by (cases r)
    (auto simp: summary_def materialize_def Resolve_first summarises_resolve
      dest: causal_opsD(4) intro: summarises_single)

lemma summarises_nonempty: "\<not> summarises {} r"
  by (simp add: summarises_def)

interpretation rec: order_free_fold materialize None summary causal_ops
proof unfold_locales
  show "summary {} None" by (simp add: summary_def)
  show "causal_ops S \<Longrightarrow> summary S s \<Longrightarrow> summary S t \<Longrightarrow> s = t" for S s t
    by (auto simp: summary_def summarises_nonempty dest: summarises_unique split: option.splits)
qed (fact summary_materialize causal_ops_subset)+

text \<open>C8: Folding any non-empty list of operations whose vectors and clocks respect causality
  through \<open>Resolve\<close> gives the record of the operation with the greatest clock, with the
  component-wise maximum of all their vectors.\<close>

theorem resolve_fold_is_greatest:
  assumes "causal_ops (set xs)" and "xs \<noteq> []"
  shows "\<exists>r. fold_ops xs = Some r
    \<and> (\<exists>w \<in> set xs. r = (fromOp w)\<lparr>rec_vv := rec_vv r\<rparr> \<and> (\<forall>x \<in> set xs. op_hlc x \<le> op_hlc w))
    \<and> (\<forall>n. vget (rec_vv r) n = Max ((\<lambda>x. vget (op_vv x) n) ` set xs))"
proof -
  have "summary (set xs) (fold_ops xs)"
    unfolding fold_ops_def by (rule rec.fold_holds [OF assms(1)])
  with assms(2) obtain r where r: "fold_ops xs = Some r" "summarises (set xs) r"
    by (auto simp: summary_def split: option.splits)
  have "vget (rec_vv r) n = Max ((\<lambda>x. vget (op_vv x) n) ` set xs)" for n
    using summarises_upper [OF r(2)] summarises_attained [OF r(2), of n]
    by (intro Max_eqI [symmetric]) auto
  with r show ?thesis unfolding summarises_def by blast
qed

text \<open>C9: Two replicas that fold the same operations in different orders, with or without
  repetitions, hold the identical record.\<close>

theorem resolve_converges:
  assumes "causal_ops (set xs)" and "set ys = set xs"
  shows "fold_ops ys = fold_ops xs"
  unfolding fold_ops_def by (rule rec.fold_set [OF assms])

text \<open>Resolving an operation that has been folded before changes nothing, however many other
  operations have come in between.\<close>

theorem resolve_redelivery:
  assumes "causal_ops (set xs)" and "x \<in> set xs"
  shows "materialize (fold_ops xs) x = fold_ops xs"
  unfolding fold_ops_def by (rule rec.fold_absorbs [OF assms])

section \<open>Examples\<close>

text \<open>The operation of the tests' \<open>makeOp\<close>.\<close>

definition makeOp :: "string \<Rightarrow> string \<Rightarrow> vector \<Rightarrow> int \<Rightarrow> string \<Rightarrow> op" where
  "makeOp i device v phys payload = \<lparr>op_id = i, op_device = device, op_collection = ''notes'',
     op_record = ''note-1'', op_type = Update, op_payload = Some payload, op_vv = v,
     op_hlc = Timestamp phys 0 device, op_seq = 0\<rparr>"

lemma makeOp_simps [simp]:
  "op_id (makeOp i d v p b) = i" "op_device (makeOp i d v p b) = d" "op_vv (makeOp i d v p b) = v"
  "op_hlc (makeOp i d v p b) = Timestamp p 0 d" "op_payload (makeOp i d v p b) = Some b"
  "op_key (makeOp i d v p b) = (''notes'', ''note-1'')"
  "op_collection (makeOp i d v p b) = ''notes''" "op_record (makeOp i d v p b) = ''note-1''"
  by (simp_all add: makeOp_def op_key_def)

abbreviation one :: "string \<Rightarrow> vector" where
  "one d \<equiv> fmupd d 1 fmempty"

abbreviation "opA \<equiv> makeOp ''op-a'' ''device-a'' (one ''device-a'') 100 ''a''"
abbreviation "opB \<equiv> makeOp ''op-b'' ''device-b'' (one ''device-b'') 300 ''b''"
abbreviation "opC \<equiv> makeOp ''op-c'' ''device-c'' (one ''device-c'') 200 ''c''"

lemma causal_example: "causal_ops {opA, opB, opC}"
  unfolding causal_ops_def sees_def
  by (simp add: inj_on_def no_zero_def less_timestamp_def covers_def)

theorem resolve_fold_is_greatest_witness:
  "\<exists>r. fold_ops [opC, opA, opB] = Some r \<and> rec_winner r = ''op-b''"
proof -
  have "causal_ops (set [opC, opA, opB])"
    using causal_example by (simp add: insert_commute)
  then obtain r w where r: "fold_ops [opC, opA, opB] = Some r" "w \<in> set [opC, opA, opB]"
    "r = (fromOp w)\<lparr>rec_vv := rec_vv r\<rparr>" "\<forall>x \<in> set [opC, opA, opB]. op_hlc x \<le> op_hlc w"
    using resolve_fold_is_greatest [of "[opC, opA, opB]"] by blast
  have "op_hlc opB \<le> op_hlc w" by (rule bspec [OF r(4)]) simp
  then have "w \<noteq> opA" "w \<noteq> opC"
    by (auto simp: less_eq_timestamp_def less_timestamp_def)
  with r(2) have "w = opB" by simp
  with r(1) arg_cong [OF r(3), of rec_winner] show ?thesis by simp
qed

theorem resolve_converges_witness: "fold_ops [opB, opC, opA] = fold_ops [opA, opB, opC]"
proof -
  have "causal_ops (set [opA, opB, opC])" using causal_example by simp
  moreover have "set [opB, opC, opA] = set [opA, opB, opC]" by auto
  ultimately show ?thesis by (rule resolve_converges)
qed

theorem resolve_redelivery_witness:
  "materialize (fold_ops [opA, opB, opC]) opA = fold_ops [opA, opB, opC]"
proof -
  have "causal_ops (set [opA, opB, opC])" using causal_example by simp
  then show ?thesis by (rule resolve_redelivery) simp
qed

text \<open>Two concurrent writes with different clocks resolve to the identical decision (record,
  merged vector, winner and loser) whichever of the two arrives second.\<close>

theorem concurrent_pair_symmetric:
  assumes "Compare (op_vv x) (op_vv y) = Concurrent" and "op_hlc x \<noteq> op_hlc y"
    and "no_zero (op_vv x)" and "no_zero (op_vv y)"
  shows "Resolve (fromOp x) True y = Resolve (fromOp y) True x
    \<and> dec_conflicted (Resolve (fromOp x) True y)
    \<and> dec_winner (Resolve (fromOp x) True y) = (if op_hlc x < op_hlc y then op_id y else op_id x)"
proof -
  have "Merge (op_vv x) (op_vv y) = Merge (op_vv y) (op_vv x)"
    using assms(3,4) by (intro no_zero_eqI no_zero_Merge) (simp_all add: vv.get_merge max.commute)
  moreover have "Compare (op_vv y) (op_vv x) = Concurrent" using assms(1) by (simp add: vv.cmp_swap)
  ultimately show ?thesis
    using assms(1,2) by (auto simp: Resolve_concurrent)
qed

theorem concurrent_pair_symmetric_witness:
  "Resolve (fromOp opA) True opB = Resolve (fromOp opB) True opA"
proof -
  have "Compare (op_vv opA) (op_vv opB) = Concurrent"
    by (auto simp: vv.cmp_Concurrent)
  then show ?thesis
    using concurrent_pair_symmetric [of opA opB] by (simp add: no_zero_upd)
qed


end
