(* ===== verification/ReplicaLog.thy ===== *)
theory ReplicaLog
  imports ConflictResolution
begin

text \<open>
  What the server and every client promise of their store: the materialised records are the
  fold of the operation log, record by record. The locale \<open>event_log\<close> is the contract of the
  operation that accepts one operation; the server's push, the client's pull and the client's
  local write each provide it.
\<close>

section \<open>The view of a log\<close>

definition view_of_log :: "op list \<Rightarrow> string \<times> string \<Rightarrow> record_state option" where
  "view_of_log xs k = fold_ops (filter (\<lambda>x. op_key x = k) xs)"

definition ops_of_key :: "op set \<Rightarrow> string \<times> string \<Rightarrow> op set" where
  "ops_of_key S k = {x \<in> S. op_key x = k}"

lemma fold_ops_core: "fold_ops (map core xs) = fold_ops xs"
  by (induction xs rule: rev_induct) simp_all

lemma view_of_log_core: "view_of_log (map core xs) = view_of_log xs"
proof
  fix k
  have "filter (\<lambda>x. op_key x = k) (map core xs) = map core (filter (\<lambda>x. op_key x = k) xs)"
    by (simp add: filter_map comp_def)
  then show "view_of_log (map core xs) k = view_of_log xs k"
    by (simp add: view_of_log_def fold_ops_core)
qed

lemma view_of_log_Nil [simp]: "view_of_log [] = (\<lambda>k. None)"
  by (simp add: view_of_log_def fun_eq_iff)

lemma view_of_log_snoc:
  "view_of_log (xs @ [x]) = (view_of_log xs)(op_key x := materialize (view_of_log xs (op_key x)) x)"
  by (simp add: view_of_log_def fun_eq_iff)

text \<open>Logs with the same operations, in whatever order, have the same view.\<close>

lemma view_of_log_set:
  assumes "core ` set xs = core ` set ys"
    and "\<And>k. causal_ops (ops_of_key (core ` set xs) k)"
  shows "view_of_log xs = view_of_log ys"
proof
  fix k
  have s: "set (filter (\<lambda>x. op_key x = k) (map core zs)) = ops_of_key (core ` set zs) k" for zs
    by (auto simp: ops_of_key_def)
  have "fold_ops (filter (\<lambda>x. op_key x = k) (map core ys)) =
        fold_ops (filter (\<lambda>x. op_key x = k) (map core xs))"
    unfolding fold_ops_def
    by (rule rec.fold_set) (simp_all only: s assms(2), simp only: assms(1))
  then show "view_of_log xs k = view_of_log ys k"
    using view_of_log_core [of xs] view_of_log_core [of ys] by (metis view_of_log_def)
qed

lemma view_of_log_summary:
  assumes "causal_ops (ops_of_key (core ` set xs) k)"
  shows "summary (ops_of_key (core ` set xs) k) (view_of_log xs k)"
proof -
  have s: "set (filter (\<lambda>x. op_key x = k) (map core xs)) = ops_of_key (core ` set xs) k"
    by (auto simp: ops_of_key_def)
  have "summary (set (filter (\<lambda>x. op_key x = k) (map core xs))) (view_of_log (map core xs) k)"
    unfolding view_of_log_def fold_ops_def by (rule rec.fold_holds) (simp only: s assms)
  then show ?thesis by (simp only: s view_of_log_core)
qed

section \<open>Accepting an operation\<close>

text \<open>
  \<open>ready x s\<close> is what the caller needs for the operation to go through: a valid \<open>x\<close> and a
  store whose statements do not fail.
\<close>

locale event_log =
  fixes log :: "'s \<Rightarrow> op list"
    and view :: "'s \<Rightarrow> string \<times> string \<Rightarrow> record_state option"
    and add :: "op \<Rightarrow> 's \<Rightarrow> 's"
    and ready :: "op \<Rightarrow> 's \<Rightarrow> bool"
  assumes log_known: "ready x s \<Longrightarrow> op_id x \<in> op_id ` set (log s) \<Longrightarrow> log (add x s) = log s"
    and view_known: "ready x s \<Longrightarrow> op_id x \<in> op_id ` set (log s) \<Longrightarrow> view (add x s) = view s"
    and log_new: "ready x s \<Longrightarrow> op_id x \<notin> op_id ` set (log s) \<Longrightarrow>
      map core (log (add x s)) = map core (log s) @ [core x]"
    and view_new: "ready x s \<Longrightarrow> op_id x \<notin> op_id ` set (log s) \<Longrightarrow>
      view (add x s) = (view s)(op_key x := materialize (view s (op_key x)) x)"
    and ready_add: "ready x s \<Longrightarrow> ready y s \<Longrightarrow> ready y (add x s)"
begin

lemma add_view:
  assumes "ready x s" and "view s = view_of_log (log s)"
  shows "view (add x s) = view_of_log (log (add x s))"
proof (cases "op_id x \<in> op_id ` set (log s)")
  case True
  then show ?thesis using assms by (simp add: log_known view_known)
next
  case False
  have "view_of_log (log (add x s)) = view_of_log (map core (log s) @ [core x])"
    using log_new [OF assms(1) False] view_of_log_core by metis
  also have "\<dots> = (view_of_log (log s))(op_key x := materialize (view_of_log (log s) (op_key x)) x)"
    by (simp add: view_of_log_snoc view_of_log_core)
  finally show ?thesis using view_new [OF assms(1) False] assms(2) by simp
qed

lemma add_cores: "ready x s \<Longrightarrow> core ` set (log (add x s)) =
    (if op_id x \<in> op_id ` set (log s) then core ` set (log s) else insert (core x) (core ` set (log s)))"
  using log_known [of x s] arg_cong [OF log_new [of x s], of set] by simp

lemma add_ids: "ready x s \<Longrightarrow> op_id ` set (log (add x s)) = insert (op_id x) (op_id ` set (log s))"
proof -
  assume r: "ready x s"
  have i: "op_id ` core ` S = op_id ` S" for S by (simp add: image_image)
  have "op_id ` core ` set (log (add x s)) = insert (op_id x) (op_id ` core ` set (log s))"
    using add_cores [OF r] i [of "set (log s)"] by (auto simp: insert_absorb)
  then show ?thesis by (simp only: i)
qed

lemma add_distinct:
  assumes "ready x s" and "distinct (map op_id (log s))"
  shows "distinct (map op_id (log (add x s)))"
proof (cases "op_id x \<in> op_id ` set (log s)")
  case True
  then show ?thesis using assms by (simp add: log_known)
next
  case False
  have i: "map op_id (map core zs) = map op_id zs" for zs by (simp add: comp_def)
  have "map op_id (log (add x s)) = map op_id (log s) @ [op_id x]"
    using arg_cong [OF log_new [OF assms(1) False], of "map op_id"] by (simp only: i map_append) simp
  with assms(2) False show ?thesis by auto
qed

text \<open>A batch of operations.\<close>

lemma add_all_ready:
  "(\<forall>x \<in> set xs. ready x s) \<Longrightarrow> ready y s \<Longrightarrow> ready y (foldl (\<lambda>s x. add x s) s xs)"
  by (induction xs arbitrary: s) (auto intro: ready_add)

lemma add_all_view:
  "(\<forall>x \<in> set xs. ready x s) \<Longrightarrow> view s = view_of_log (log s) \<Longrightarrow>
   view (foldl (\<lambda>s x. add x s) s xs) = view_of_log (log (foldl (\<lambda>s x. add x s) s xs))"
  by (induction xs arbitrary: s) (auto intro: add_view ready_add)

lemma add_all_ids: "(\<forall>x \<in> set xs. ready x s) \<Longrightarrow>
   op_id ` set (log (foldl (\<lambda>s x. add x s) s xs)) = op_id ` set xs \<union> op_id ` set (log s)"
proof (induction xs arbitrary: s)
  case Nil
  then show ?case by simp
next
  case (Cons x xs)
  then have "\<forall>y \<in> set xs. ready y (add x s)" by (auto intro: ready_add)
  from Cons.IH [OF this] add_ids [of x s] Cons.prems show ?case by auto
qed

text \<open>Sending a batch again, in whole or in part, changes neither log nor view.\<close>

lemma add_all_again: "(\<forall>x \<in> set xs. ready x s \<and> op_id x \<in> op_id ` set (log s)) \<Longrightarrow>
   log (foldl (\<lambda>s x. add x s) s xs) = log s \<and> view (foldl (\<lambda>s x. add x s) s xs) = view s"
proof (induction xs arbitrary: s)
  case Nil
  then show ?case by simp
next
  case (Cons x xs)
  then have same: "log (add x s) = log s" "view (add x s) = view s"
    by (simp_all add: log_known view_known)
  with Cons.prems have "\<forall>y \<in> set xs. ready y (add x s) \<and> op_id y \<in> op_id ` set (log (add x s))"
    by (auto intro: ready_add)
  from Cons.IH [OF this] same show ?case by simp
qed

end

end
