(* ===== verification/Causality.thy ===== *)
theory Causality
  imports ReplicaLog
begin

text \<open>
  Why the operations of a system of devices satisfy \<open>causal_ops\<close>: a history of which device
  holds which operations, kept by writes (which build on the summary of what the device holds,
  with a later clock) and by deliveries of operations some device holds.
\<close>

section \<open>Histories\<close>

text \<open>\<open>H i\<close> is what device \<open>i\<close> holds, \<open>T i\<close> its clock's last timestamp.\<close>

definition causal_pair :: "op \<Rightarrow> op \<Rightarrow> bool" where
  "causal_pair x y \<longleftrightarrow> (op_key x = op_key y \<longrightarrow> sees y x \<longrightarrow> covers y x \<and> (x = y \<or> op_hlc x < op_hlc y))"

definition known_at_home :: "(string \<Rightarrow> op set) \<Rightarrow> op \<Rightarrow> bool" where
  "known_at_home H y \<longleftrightarrow> (\<forall>i. vget (op_vv y) i \<noteq> 0 \<longrightarrow>
     (\<exists>w \<in> H i. op_key w = op_key y \<and> vget (op_vv y) i \<le> vget (op_vv w) i))"

definition proper_op :: "(string \<Rightarrow> op set) \<Rightarrow> op \<Rightarrow> bool" where
  "proper_op H x \<longleftrightarrow> x \<in> H (op_device x) \<and> node_id (op_hlc x) = op_device x
     \<and> no_zero (op_vv x) \<and> vget (op_vv x) (op_device x) \<noteq> 0"

definition history :: "(string \<Rightarrow> op set) \<Rightarrow> (string \<Rightarrow> timestamp) \<Rightarrow> bool" where
  "history H T \<longleftrightarrow>
     (\<forall>x \<in> \<Union> (range H). proper_op H x \<and> known_at_home H x)
     \<and> (\<forall>i. \<forall>x \<in> H i. op_hlc x \<le> T i)
     \<and> inj_on op_id (\<Union> (range H)) \<and> inj_on op_hlc (\<Union> (range H))
     \<and> (\<forall>x \<in> \<Union> (range H). \<forall>y \<in> \<Union> (range H). causal_pair x y)"

lemma historyD:
  assumes "history H T"
  shows "x \<in> H i \<Longrightarrow> proper_op H x" "x \<in> H i \<Longrightarrow> known_at_home H x" "x \<in> H i \<Longrightarrow> op_hlc x \<le> T i"
    and "x \<in> H i \<Longrightarrow> y \<in> H j \<Longrightarrow> op_id x = op_id y \<Longrightarrow> x = y"
    and "x \<in> H i \<Longrightarrow> y \<in> H j \<Longrightarrow> op_hlc x = op_hlc y \<Longrightarrow> x = y"
    and "x \<in> H i \<Longrightarrow> y \<in> H j \<Longrightarrow> causal_pair x y"
  using assms unfolding history_def inj_on_def by (blast, blast, blast, blast, blast, blast)

lemma historyI:
  assumes "\<And>x i. x \<in> H i \<Longrightarrow> proper_op H x" and "\<And>x i. x \<in> H i \<Longrightarrow> known_at_home H x"
    and "\<And>x i. x \<in> H i \<Longrightarrow> op_hlc x \<le> T i"
    and "\<And>x y i j. x \<in> H i \<Longrightarrow> y \<in> H j \<Longrightarrow> op_id x = op_id y \<Longrightarrow> x = y"
    and "\<And>x y i j. x \<in> H i \<Longrightarrow> y \<in> H j \<Longrightarrow> op_hlc x = op_hlc y \<Longrightarrow> x = y"
    and "\<And>x y i j. x \<in> H i \<Longrightarrow> y \<in> H j \<Longrightarrow> causal_pair x y"
  shows "history H T"
  using assms unfolding history_def inj_on_def by (intro conjI ballI allI impI) blast+

lemma causal_pairD:
  "causal_pair x y \<Longrightarrow> op_key x = op_key y \<Longrightarrow> sees y x \<Longrightarrow> covers y x"
  "causal_pair x y \<Longrightarrow> op_key x = op_key y \<Longrightarrow> sees y x \<Longrightarrow> op_hlc x \<le> op_hlc y"
  unfolding causal_pair_def by auto

lemma history_empty: "history (\<lambda>i. {}) T"
  by (simp add: history_def)

text \<open>Any part of a history, record by record, is causal.\<close>

lemma history_causal_ops:
  assumes "history H T" and "S \<subseteq> \<Union> (range H)"
  shows "causal_ops (ops_of_key S k)"
proof -
  have in_H: "\<exists>i. x \<in> H i" if "x \<in> ops_of_key S k" for x
    using that assms(2) by (auto simp: ops_of_key_def)
  have "x = y" if "x \<in> ops_of_key S k" "y \<in> ops_of_key S k" "op_hlc x = op_hlc y" for x y
  proof -
    from in_H that(1,2) obtain i j where "x \<in> H i" "y \<in> H j" by blast
    then show ?thesis by (rule historyD(5) [OF assms(1) _ _ that(3)])
  qed
  moreover have "covers y x \<and> (x = y \<or> op_hlc x < op_hlc y)"
    if "x \<in> ops_of_key S k" "y \<in> ops_of_key S k" "sees y x" for x y
  proof -
    from in_H that(1,2) obtain i j where "x \<in> H i" "y \<in> H j" by blast
    then have "causal_pair x y" by (rule historyD(6) [OF assms(1)])
    with that show ?thesis by (simp add: causal_pair_def ops_of_key_def)
  qed
  moreover have "no_zero (op_vv x)" if "x \<in> ops_of_key S k" for x
    using in_H [OF that] historyD(1) [OF assms(1)] by (auto simp: proper_op_def)
  ultimately show ?thesis by (simp add: causal_ops_def inj_on_def)
qed

section \<open>Delivery\<close>

lemma known_at_home_mono: "known_at_home H x \<Longrightarrow> (\<And>i. H i \<subseteq> H' i) \<Longrightarrow> known_at_home H' x"
  unfolding known_at_home_def by blast

lemma good_insert:
  assumes "proper_op H y" and "known_at_home H y"
  shows "proper_op (H(i := insert x (H i))) y \<and> known_at_home (H(i := insert x (H i))) y"
proof
  show "proper_op (H(i := insert x (H i))) y" using assms(1) by (auto simp: proper_op_def)
  show "known_at_home (H(i := insert x (H i))) y" by (rule known_at_home_mono [OF assms(2)]) auto
qed

lemma history_deliver:
  assumes h: "history H T" and x: "x \<in> H j" and t: "T i \<le> t" "op_hlc x \<le> t"
  shows "history (H(i := insert x (H i))) (T(i := t))"
proof -
  let ?H = "H(i := insert x (H i))"
  have old: "\<exists>k. y \<in> H k" if "y \<in> ?H k" for y k using that x by (auto split: if_splits)
  show ?thesis
  proof (rule historyI)
    fix y k
    assume y: "y \<in> ?H k"
    then obtain l where l: "y \<in> H l" using old by blast
    from good_insert [OF historyD(1) [OF h l] historyD(2) [OF h l]]
    show "proper_op ?H y" "known_at_home ?H y" by simp_all
    show "op_hlc y \<le> (T(i := t)) k"
      using y historyD(3) [OF h, of y k] t by (auto split: if_splits intro: order_trans)
    fix y' k'
    assume "y' \<in> ?H k'"
    then obtain l' where l': "y' \<in> H l'" using old by blast
    show "op_id y = op_id y' \<Longrightarrow> y = y'" "op_hlc y = op_hlc y' \<Longrightarrow> y = y'" "causal_pair y y'"
      by (fact historyD(4) [OF h l l'], fact historyD(5) [OF h l l'], fact historyD(6) [OF h l l'])
  qed
qed

section \<open>Writes\<close>

text \<open>
  The vector of a new write: the summary's with the device's own counter one up. \<open>b\<close> is the
  vector of the record the device holds, or the empty one.
\<close>

definition base_vector :: "record_state option \<Rightarrow> vector" where
  "base_vector r = (case r of None \<Rightarrow> fmempty | Some e \<Rightarrow> rec_vv e)"

lemma base_upper: "summary S r \<Longrightarrow> x \<in> S \<Longrightarrow> vget (op_vv x) n \<le> vget (base_vector r) n"
  by (auto simp: summary_def base_vector_def split: option.splits dest: summarises_upper)

lemma base_attained: "summary S r \<Longrightarrow> vget (base_vector r) n \<noteq> 0 \<Longrightarrow>
    \<exists>w \<in> S. vget (base_vector r) n = vget (op_vv w) n"
  by (auto simp: summary_def base_vector_def split: option.splits dest: summarises_attained)

lemma base_no_zero: "summary S r \<Longrightarrow> no_zero (base_vector r)"
  by (auto simp: summary_def base_vector_def split: option.splits dest: summarises_no_zero)

definition fresh_write :: "(string \<Rightarrow> op set) \<Rightarrow> (string \<Rightarrow> timestamp) \<Rightarrow> string \<Rightarrow> op \<Rightarrow> record_state option \<Rightarrow> bool" where
  "fresh_write H T i z r \<longleftrightarrow> history H T
     \<and> op_device z = i \<and> node_id (op_hlc z) = i \<and> op_id z \<notin> op_id ` \<Union> (range H) \<and> T i < op_hlc z
     \<and> summary (ops_of_key (H i) (op_key z)) r
     \<and> op_vv z = Increment (base_vector r) i \<and> vget (base_vector r) i \<noteq> - 1"

lemma fresh_writeD:
  assumes "fresh_write H T i z r"
  shows fw_hist: "history H T" and fw_device: "op_device z = i" "node_id (op_hlc z) = i"
    and fw_fresh: "op_id z \<notin> op_id ` \<Union> (range H)" and fw_later: "T i < op_hlc z"
    and fw_summary: "summary (ops_of_key (H i) (op_key z)) r"
    and fw_vector: "op_vv z = Increment (base_vector r) i" and fw_not_full: "vget (base_vector r) i \<noteq> - 1"
  using assms by (simp_all add: fresh_write_def)

lemma write_own:
  assumes fw: "fresh_write H T i z r"
  shows "vget (op_vv z) i = vget (base_vector r) i + 1"
  by (simp add: fw_vector [OF fw] vget_Increment)

lemma write_other:
  assumes fw: "fresh_write H T i z r"
  shows "n \<noteq> i \<Longrightarrow> vget (op_vv z) n = vget (base_vector r) n"
  by (simp add: fw_vector [OF fw] vget_Increment)

lemma write_grows:
  assumes fw: "fresh_write H T i z r"
  shows "vget (base_vector r) n \<le> vget (op_vv z) n"
  using fw_not_full [OF fw] by (cases "n = i") (simp_all add: write_own [OF fw] write_other [OF fw] word_le_Suc_self)

lemma write_held:
  assumes fw: "fresh_write H T i z r"
  shows "x \<in> H i \<Longrightarrow> op_key x = op_key z \<Longrightarrow> covers z x \<and> op_hlc x < op_hlc z"
proof -
  assume x: "x \<in> H i" "op_key x = op_key z"
  then have "vget (op_vv x) n \<le> vget (base_vector r) n" for n
    by (intro base_upper [OF fw_summary [OF fw]]) (simp add: ops_of_key_def)
  moreover have "op_hlc x < op_hlc z" using historyD(3) [OF fw_hist [OF fw] x(1)] fw_later [OF fw] by simp
  ultimately show ?thesis using write_grows [OF fw] by (auto simp: covers_def intro: order_trans)
qed

lemma write_own_known:
  assumes fw: "fresh_write H T i z r"
  shows "y \<in> H j \<Longrightarrow> op_key y = op_key z \<Longrightarrow> vget (op_vv y) i \<le> vget (base_vector r) i"
proof (cases "vget (op_vv y) i = 0")
  case False
  assume y: "y \<in> H j" "op_key y = op_key z"
  then obtain w where w: "w \<in> H i" "op_key w = op_key y" "vget (op_vv y) i \<le> vget (op_vv w) i"
    using historyD(2) [OF fw_hist [OF fw] y(1)] False unfolding known_at_home_def by blast
  then have "vget (op_vv w) i \<le> vget (base_vector r) i"
    by (intro base_upper [OF fw_summary [OF fw]]) (simp add: ops_of_key_def y(2))
  with w(3) show ?thesis by (rule order_trans)
qed simp

lemma write_past:
  assumes fw: "fresh_write H T i z r"
  shows "x \<in> H j \<Longrightarrow> causal_pair x z"
  unfolding causal_pair_def
proof (intro impI)
  assume x: "x \<in> H j" and k: "op_key x = op_key z" and s: "sees z x"
  note p = historyD(1) [OF fw_hist [OF fw] x, unfolded proper_op_def]
  show "covers z x \<and> (x = z \<or> op_hlc x < op_hlc z)"
  proof (cases "op_device x = i")
    case True
    then show ?thesis using write_held [OF fw, of x] p k by blast
  next
    case False
    with s have le: "vget (op_vv x) (op_device x) \<le> vget (base_vector r) (op_device x)"
      by (simp add: sees_def write_other [OF fw])
    with p have "vget (base_vector r) (op_device x) \<noteq> 0" by (auto simp: word_le_0_iff)
    then obtain w where w: "w \<in> H i" "op_key w = op_key z"
      "vget (base_vector r) (op_device x) = vget (op_vv w) (op_device x)"
      using base_attained [OF fw_summary [OF fw]] by (auto simp: ops_of_key_def)
    have cp: "causal_pair x w" by (rule historyD(6) [OF fw_hist [OF fw] x w(1)])
    have "sees w x" using le w(3) by (simp add: sees_def)
    then have "covers w x" "op_hlc x \<le> op_hlc w"
      using causal_pairD [OF cp] k w(2) by simp_all
    moreover have "covers z w" "op_hlc w < op_hlc z" using write_held [OF fw w(1,2)] by simp_all
    ultimately show ?thesis by (auto simp: covers_def intro: order_trans)
  qed
qed

lemma write_future:
  assumes fw: "fresh_write H T i z r"
  shows "y \<in> H j \<Longrightarrow> causal_pair z y"
proof -
  assume y: "y \<in> H j"
  have "\<not> sees y z" if "op_key z = op_key y"
  proof -
    have "vget (op_vv y) i \<le> vget (base_vector r) i" using write_own_known [OF fw y] that by simp
    moreover have "vget (base_vector r) i < vget (op_vv z) i" using fw_not_full [OF fw] by (simp add: write_own [OF fw])
    ultimately show ?thesis by (simp add: sees_def fw_device [OF fw] not_le)
  qed
  then show ?thesis by (auto simp: causal_pair_def)
qed

lemma write_new_clock:
  assumes fw: "fresh_write H T i z r"
  shows "x \<in> H j \<Longrightarrow> op_hlc x \<noteq> op_hlc z"
proof
  assume x: "x \<in> H j" and e: "op_hlc x = op_hlc z"
  then have "x \<in> H i" using historyD(1) [OF fw_hist [OF fw] x] fw_device [OF fw] by (simp add: proper_op_def)
  from historyD(3) [OF fw_hist [OF fw] this] e fw_later [OF fw] show False by simp
qed

lemma write_home:
  assumes fw: "fresh_write H T i z r"
  shows "known_at_home (H(i := insert z (H i))) z"
  unfolding known_at_home_def
proof (intro allI impI)
  fix n
  assume nz: "vget (op_vv z) n \<noteq> 0"
  show "\<exists>w \<in> (H(i := insert z (H i))) n. op_key w = op_key z \<and> vget (op_vv z) n \<le> vget (op_vv w) n"
  proof (cases "n = i")
    case True
    then show ?thesis by auto
  next
    case False
    with nz obtain w where w: "w \<in> H i" "op_key w = op_key z" "vget (op_vv z) n = vget (op_vv w) n"
      using base_attained [OF fw_summary [OF fw], of n] by (auto simp: write_other [OF fw] ops_of_key_def)
    with nz obtain v where "v \<in> H n" "op_key v = op_key w" "vget (op_vv w) n \<le> vget (op_vv v) n"
      using historyD(2) [OF fw_hist [OF fw] w(1)] unfolding known_at_home_def by auto
    with False w show ?thesis by auto
  qed
qed

lemma history_write:
  assumes fw: "fresh_write H T i z r"
  shows "history (H(i := insert z (H i))) (T(i := op_hlc z))"
proof -
  let ?H = "H(i := insert z (H i))"
  have u: "\<Union> (range ?H) = insert z (\<Union> (range H))" by (auto split: if_splits)
  have "vget (op_vv z) i \<noteq> 0"
    using fw_not_full [OF fw] unfolding write_own [OF fw] by (metis add_eq_0_iff add.commute)
  moreover have "no_zero (op_vv z)"
    unfolding fw_vector [OF fw] by (rule no_zero_Increment [OF base_no_zero [OF fw_summary [OF fw]] fw_not_full [OF fw]])
  ultimately have z: "proper_op ?H z" by (simp add: proper_op_def fw_device [OF fw])
  have cases: "y = z \<or> (\<exists>k. y \<in> H k)" if "y \<in> ?H k" for y k
    using that by (auto split: if_splits)
  have pair_z: "causal_pair z z" by (simp add: causal_pair_def covers_def)
  show ?thesis
  proof (rule historyI)
    fix y k
    assume y: "y \<in> ?H k"
    have "proper_op ?H y \<and> known_at_home ?H y"
      using cases [OF y]
    proof (elim disjE exE)
      fix j
      assume "y \<in> H j"
      then show ?thesis by (intro good_insert historyD(1,2) [OF fw_hist [OF fw]])
    qed (simp add: z write_home [OF fw])
    then show "proper_op ?H y" "known_at_home ?H y" by simp_all
    show "op_hlc y \<le> (T(i := op_hlc z)) k"
      using y historyD(3) [OF fw_hist [OF fw], of y k] fw_later [OF fw] by (auto split: if_splits)
    fix y' k'
    assume y': "y' \<in> ?H k'"
    have fresh': "op_id y \<noteq> op_id z" if "y \<in> H j" for y j
      using fw_fresh [OF fw] that by (metis UN_I UNIV_I image_eqI)
    show "op_id y = op_id y' \<Longrightarrow> y = y'"
      using cases [OF y] cases [OF y'] by (elim disjE exE) (auto dest: fresh' historyD(4) [OF fw_hist [OF fw]])
    show "op_hlc y = op_hlc y' \<Longrightarrow> y = y'"
      using cases [OF y] cases [OF y'] by (elim disjE exE) (auto dest: write_new_clock [OF fw] historyD(5) [OF fw_hist [OF fw]])
    show "causal_pair y y'"
      using cases [OF y] cases [OF y']
      by (elim disjE exE) (simp_all add: write_past [OF fw] write_future [OF fw] pair_z historyD(6) [OF fw_hist [OF fw]])
  qed
qed

end
