(* ===== verification/SqliteStore.thy ===== *)
theory SqliteStore
  imports ConflictResolution
begin

text \<open>
  The storage layer, \<open>internal/storage/sqlite\<close>: the tables as a record, one definition per
  method of \<open>DB\<close>, each a state transformer that returns a value or an error with the new
  database. Every SQL statement can fail; which ones do is the script \<open>db_faults\<close>.
\<close>

section \<open>Tables\<close>

text \<open>
  Rows of \<open>oplog\<close>, \<open>conflicts\<close> and \<open>devices\<close> stand in the order of their integer ids (no
  statement deletes a row); \<open>records\<close> and \<open>kv\<close> are maps from their primary keys. A column of
  JSON text that is only ever written by \<open>json.Marshal\<close> of a vector and read by
  \<open>json.Unmarshal\<close> into one holds the vector itself, and a time column the time; a nil vector
  and an empty one, which every operation treats alike, are the same value.
\<close>

record row =
  row_op :: op
  row_pushed :: bool

record conflict =
  con_id :: int
  con_collection :: string
  con_record :: string
  con_winner :: string
  con_loser :: string
  con_seq :: int
  con_at :: time

record device =
  dev_id :: string
  dev_name :: string
  dev_hash :: string
  dev_created :: time

text \<open>
  \<open>db_faults\<close> holds the outcomes of the statements to come, \<open>Some m\<close> for a driver error with
  text \<open>m\<close>; once it is used up every statement succeeds.
\<close>

record db =
  db_oplog :: "row list"
  db_records :: "(string \<times> string, record_state) fmap"
  db_conflicts :: "conflict list"
  db_devices :: "device list"
  db_next :: int
  db_kv :: "(string, string) fmap"
  db_faults :: "string option list"

definition empty_db :: db where
  "empty_db = \<lparr>db_oplog = [], db_records = fmempty, db_conflicts = [], db_devices = [],
     db_next = 1, db_kv = fmempty, db_faults = []\<rparr>"

section \<open>Statements and transactions\<close>

definition statement :: "db \<Rightarrow> go_error option \<times> db" where
  "statement d =
     (case db_faults d of
        [] \<Rightarrow> (None, d)
      | f # fs \<Rightarrow> (map_option ErrLib f, d\<lparr>db_faults := fs\<rparr>))"

definition exec :: "(db \<Rightarrow> db) \<Rightarrow> db \<Rightarrow> unit result \<times> db" where
  "exec upd d =
     (case statement d of
        (Some e, d') \<Rightarrow> (Inl e, d')
      | (None, d') \<Rightarrow> (Inr (), upd d'))"

definition query :: "(db \<Rightarrow> 'a) \<Rightarrow> db \<Rightarrow> 'a result \<times> db" where
  "query sel d =
     (case statement d of
        (Some e, d') \<Rightarrow> (Inl e, d')
      | (None, d') \<Rightarrow> (Inr (sel d'), d'))"

text \<open>
  \<open>WithTx\<close>: begin, run the body, roll back if it returns an error, commit otherwise. A rolled
  back transaction leaves the tables as they were at the start.
\<close>

definition rollback :: "db \<Rightarrow> db \<Rightarrow> db" where
  "rollback before d = before\<lparr>db_faults := db_faults d\<rparr>"

definition WithTx :: "(db \<Rightarrow> 'a result \<times> db) \<Rightarrow> db \<Rightarrow> 'a result \<times> db" where
  "WithTx fn d =
     (case statement d of
        (Some e, d1) \<Rightarrow> (Inl e, d1)
      | (None, d1) \<Rightarrow>
          (case fn d1 of
             (Inl e, d2) \<Rightarrow> (Inl e, rollback d1 d2)
           | (Inr x, d2) \<Rightarrow>
               (case statement d2 of
                  (Some e, d3) \<Rightarrow> (Inl e, rollback d1 d3)
                | (None, d3) \<Rightarrow> (Inr x, d3))))"

text \<open>
  \<open>Open\<close>: connect, set the pragma and apply the schema, whose statements create what is not
  there yet; \<open>None\<close> is a path with no database file.
\<close>

definition Open :: "db option \<Rightarrow> db result \<times> db" where
  "Open file =
     (let d = (case file of None \<Rightarrow> empty_db | Some d \<Rightarrow> d)
      in case exec (\<lambda>t. t) d of
           (Inl e, d1) \<Rightarrow> (Inl (ErrWrap ''sqlite: set pragma'' e), d1)
         | (Inr _, d1) \<Rightarrow>
             (case exec (\<lambda>t. t) d1 of
                (Inl e, d2) \<Rightarrow> (Inl (ErrWrap ''sqlite: apply schema'' e), d2)
              | (Inr _, d2) \<Rightarrow> (Inr d2, d2)))"

definition CurrentCheckpoint :: "db \<Rightarrow> int result \<times> db" where
  "CurrentCheckpoint d =
     (case query db_next d of
        (Inl e, d1) \<Rightarrow> (Inl e, d1)
      | (Inr nxt, d1) \<Rightarrow> (Inr (nxt - 1), d1))"

section \<open>The operation log\<close>

definition ops :: "db \<Rightarrow> op list" where
  "ops d = map row_op (db_oplog d)"

definition select_seq :: "string \<Rightarrow> db \<Rightarrow> int option" where
  "select_seq i d = map_option op_seq (find (\<lambda>x. op_id x = i) (ops d))"

definition insert_op :: "op \<Rightarrow> db \<Rightarrow> db" where
  "insert_op x d = d\<lparr>db_oplog := db_oplog d @ [\<lparr>row_op = x, row_pushed = False\<rparr>]\<rparr>"

definition nextServerSeq :: "db \<Rightarrow> int result \<times> db" where
  "nextServerSeq d =
     (case exec (\<lambda>t. t\<lparr>db_next := db_next t + 1\<rparr>) d of
        (Inl e, d1) \<Rightarrow> (Inl e, d1)
      | (Inr _, d1) \<Rightarrow>
          (case query db_next d1 of
             (Inl e, d2) \<Rightarrow> (Inl e, d2)
           | (Inr nxt, d2) \<Rightarrow> (Inr (nxt - 1), d2)))"

text \<open>The body of \<open>AppendOp\<close>'s transaction: the operation to return and whether it was inserted.\<close>

definition append_tx :: "op \<Rightarrow> bool \<Rightarrow> db \<Rightarrow> (op \<times> bool) result \<times> db" where
  "append_tx x assignSeq tx =
     (case query (select_seq (op_id x)) tx of
        (Inl e, tx1) \<Rightarrow> (Inl (ErrWrap ''check existing op'' e), tx1)
      | (Inr (Some existingSeq), tx1) \<Rightarrow> (Inr (x\<lparr>op_seq := existingSeq\<rparr>, False), tx1)
      | (Inr None, tx1) \<Rightarrow>
          (case (if assignSeq
                 then (case nextServerSeq tx1 of
                         (Inl e, tx2) \<Rightarrow> (Inl (ErrWrap ''assign server_seq'' e), tx2)
                       | (Inr seq, tx2) \<Rightarrow> (Inr (x\<lparr>op_seq := seq\<rparr>), tx2))
                 else (Inr x, tx1)) of
             (Inl e, tx2) \<Rightarrow> (Inl e, tx2)
           | (Inr y, tx2) \<Rightarrow>
               (case exec (insert_op y) tx2 of
                  (Inl e, tx3) \<Rightarrow> (Inl (ErrWrap ''insert op'' e), tx3)
                | (Inr _, tx3) \<Rightarrow> (Inr (y, True), tx3))))"

definition AppendOp :: "op \<Rightarrow> bool \<Rightarrow> db \<Rightarrow> (op \<times> bool) result \<times> db" where
  "AppendOp x assignSeq d =
     (case Validate x of
        Some e \<Rightarrow> (Inl e, d)
      | None \<Rightarrow> WithTx (append_tx x assignSeq) d)"

text \<open>
  \<open>limit\<close> is a Go \<open>int\<close>; \<open>limit + 1\<close> wraps at the largest one, and SQLite reads a negative
  \<open>LIMIT\<close> as no limit.
\<close>

definition sql_limit :: "i64 \<Rightarrow> 'a list \<Rightarrow> 'a list" where
  "sql_limit n xs = (if sint n < 0 then xs else take (nat (sint n)) xs)"

definition select_since :: "int \<Rightarrow> string \<Rightarrow> i64 \<Rightarrow> db \<Rightarrow> op list" where
  "select_since since collection n d =
     sql_limit n (sort_key op_seq
       (filter (\<lambda>x. op_seq x > since \<and> op_seq x > 0
                  \<and> (collection \<noteq> [] \<longrightarrow> op_collection x = collection)) (ops d)))"

definition OpsSince :: "int \<Rightarrow> string \<Rightarrow> i64 \<Rightarrow> db \<Rightarrow> (op list \<times> int \<times> bool) result \<times> db" where
  "OpsSince since collection limit d =
     (let lim = (if sint limit \<le> 0 then 100 else limit)
      in case query (select_since since collection (lim + 1)) d of
           (Inl e, d1) \<Rightarrow> (Inl e, d1)
         | (Inr found, d1) \<Rightarrow>
             (let hasMore = (int (length found) > sint lim);
                  page = (if hasMore then take (nat (sint lim)) found else found);
                  nextCheckpoint = (if page \<noteq> [] then op_seq (last page) else since)
              in (Inr (page, nextCheckpoint, hasMore), d1)))"

definition UnpushedOps :: "string \<Rightarrow> db \<Rightarrow> op list result \<times> db" where
  "UnpushedOps deviceID d =
     query (\<lambda>t. map row_op
       (filter (\<lambda>r. op_device (row_op r) = deviceID \<and> \<not> row_pushed r) (db_oplog t))) d"

definition set_pushed :: "string \<Rightarrow> db \<Rightarrow> db" where
  "set_pushed i d =
     d\<lparr>db_oplog := map (\<lambda>r. if op_id (row_op r) = i then r\<lparr>row_pushed := True\<rparr> else r) (db_oplog d)\<rparr>"

fun mark_loop :: "string list \<Rightarrow> db \<Rightarrow> unit result \<times> db" where
  "mark_loop [] tx = (Inr (), tx)"
| "mark_loop (i # is) tx =
     (case exec (set_pushed i) tx of
        (Inl e, tx1) \<Rightarrow> (Inl e, tx1)
      | (Inr _, tx1) \<Rightarrow> mark_loop is tx1)"

definition MarkPushed :: "string list \<Rightarrow> db \<Rightarrow> unit result \<times> db" where
  "MarkPushed opIDs d =
     (if opIDs = [] then (Inr (), d)
      else WithTx (\<lambda>tx. case exec (\<lambda>t. t) tx of
                          (Inl e, tx1) \<Rightarrow> (Inl e, tx1)
                        | (Inr _, tx1) \<Rightarrow> mark_loop opIDs tx1) d)"

section \<open>Records, conflicts, devices and key-value state\<close>

text \<open>Lookups return the value, or Go's zero value, and whether a row was found.\<close>

definition GetRecord :: "string \<Rightarrow> string \<Rightarrow> db \<Rightarrow> (record_state \<times> bool) result \<times> db" where
  "GetRecord collection recordID d =
     query (\<lambda>t. case fmlookup (db_records t) (collection, recordID) of
                  None \<Rightarrow> (zero_record, False)
                | Some r \<Rightarrow> (r, True)) d"

definition PutRecord :: "record_state \<Rightarrow> db \<Rightarrow> unit result \<times> db" where
  "PutRecord r d = exec (\<lambda>t. t\<lparr>db_records := fmupd (rec_key r) r (db_records t)\<rparr>) d"

definition ListRecords :: "string \<Rightarrow> db \<Rightarrow> record_state list result \<times> db" where
  "ListRecords collection d =
     query (\<lambda>t. map snd (filter (\<lambda>(k, r). fst k = collection) (sorted_list_of_fmap (db_records t)))) d"

definition RecordConflict :: "conflict \<Rightarrow> db \<Rightarrow> unit result \<times> db" where
  "RecordConflict c d =
     exec (\<lambda>t. t\<lparr>db_conflicts := db_conflicts t @ [c\<lparr>con_id := int (length (db_conflicts t)) + 1\<rparr>]\<rparr>) d"

definition ListConflicts :: "db \<Rightarrow> conflict list result \<times> db" where
  "ListConflicts d = query db_conflicts d"

text \<open>\<open>INSERT ... ON CONFLICT(device_id) DO UPDATE\<close>: \<open>created_at\<close> of an existing row is kept.\<close>

fun upsert_device :: "device \<Rightarrow> device list \<Rightarrow> device list" where
  "upsert_device dev [] = [dev]"
| "upsert_device dev (e # ds) =
     (if dev_id e = dev_id dev
      then e\<lparr>dev_name := dev_name dev, dev_hash := dev_hash dev\<rparr> # ds
      else e # upsert_device dev ds)"

definition CreateDevice :: "device \<Rightarrow> db \<Rightarrow> unit result \<times> db" where
  "CreateDevice dev d = exec (\<lambda>t. t\<lparr>db_devices := upsert_device dev (db_devices t)\<rparr>) d"

definition zero_device :: device where
  "zero_device = \<lparr>dev_id = [], dev_name = [], dev_hash = [], dev_created = 0\<rparr>"

definition scanDevice :: "device option \<Rightarrow> device \<times> bool" where
  "scanDevice r = (case r of None \<Rightarrow> (zero_device, False) | Some dev \<Rightarrow> (dev, True))"

definition DeviceByID :: "string \<Rightarrow> db \<Rightarrow> (device \<times> bool) result \<times> db" where
  "DeviceByID i d = query (\<lambda>t. scanDevice (find (\<lambda>e. dev_id e = i) (db_devices t))) d"

definition DeviceByTokenHash :: "string \<Rightarrow> db \<Rightarrow> (device \<times> bool) result \<times> db" where
  "DeviceByTokenHash h d = query (\<lambda>t. scanDevice (find (\<lambda>e. dev_hash e = h) (db_devices t))) d"

definition GetKV :: "string \<Rightarrow> db \<Rightarrow> (string \<times> bool) result \<times> db" where
  "GetKV k d =
     query (\<lambda>t. case fmlookup (db_kv t) k of None \<Rightarrow> ([], False) | Some v \<Rightarrow> (v, True)) d"

definition SetKV :: "string \<Rightarrow> string \<Rightarrow> db \<Rightarrow> unit result \<times> db" where
  "SetKV k v d = exec (\<lambda>t. t\<lparr>db_kv := fmupd k v (db_kv t)\<rparr>) d"

section \<open>When no statement fails\<close>

lemma statement_ok [store_simps]: "db_faults d = [] \<Longrightarrow> statement d = (None, d)"
  by (simp add: statement_def)

lemma exec_ok [store_simps]: "db_faults d = [] \<Longrightarrow> exec upd d = (Inr (), upd d)"
  by (simp add: exec_def statement_ok)

lemma query_ok [store_simps]: "db_faults d = [] \<Longrightarrow> query sel d = (Inr (sel d), d)"
  by (simp add: query_def statement_ok)

lemma WithTx_ok:
  "db_faults d = [] \<Longrightarrow> fn d = (Inr x, d') \<Longrightarrow> db_faults d' = [] \<Longrightarrow> WithTx fn d = (Inr x, d')"
  by (simp add: WithTx_def statement_ok)

lemma insert_op_simps [simp]:
  "ops (insert_op x d) = ops d @ [x]" "db_faults (insert_op x d) = db_faults d"
  "db_records (insert_op x d) = db_records d" "db_next (insert_op x d) = db_next d"
  "db_kv (insert_op x d) = db_kv d" "db_conflicts (insert_op x d) = db_conflicts d"
  "db_devices (insert_op x d) = db_devices d"
  by (simp_all add: insert_op_def ops_def)

lemma ops_updates [simp]:
  "ops (d\<lparr>db_records := r\<rparr>) = ops d" "ops (d\<lparr>db_conflicts := c\<rparr>) = ops d"
  "ops (d\<lparr>db_devices := v\<rparr>) = ops d" "ops (d\<lparr>db_next := n\<rparr>) = ops d"
  "ops (d\<lparr>db_kv := m\<rparr>) = ops d" "ops (d\<lparr>db_faults := f\<rparr>) = ops d"
  by (simp_all add: ops_def)

lemma select_seq_None: "select_seq i d = None \<longleftrightarrow> i \<notin> op_id ` set (ops d)"
  by (auto simp: select_seq_def find_None_iff)

lemma select_seq_faults [simp]: "select_seq i (d\<lparr>db_faults := f\<rparr>) = select_seq i d"
  by (simp add: select_seq_def)

text \<open>What \<open>AppendOp\<close> returns and leaves behind, as one equation.\<close>

definition appended :: "op \<Rightarrow> bool \<Rightarrow> db \<Rightarrow> (op \<times> bool) \<times> db" where
  "appended x assignSeq d =
     (case select_seq (op_id x) d of
        Some s \<Rightarrow> ((x\<lparr>op_seq := s\<rparr>, False), d)
      | None \<Rightarrow>
          (let y = (if assignSeq then x\<lparr>op_seq := db_next d\<rparr> else x);
               d1 = (if assignSeq then d\<lparr>db_next := db_next d + 1\<rparr> else d)
           in ((y, True), insert_op y d1)))"

lemma appended_simps:
  "op_id x \<in> op_id ` set (ops d) \<Longrightarrow> snd (appended x a d) = d \<and> snd (fst (appended x a d)) = False"
  "op_id x \<notin> op_id ` set (ops d) \<Longrightarrow> appended x a d =
     ((if a then x\<lparr>op_seq := db_next d\<rparr> else x, True),
      insert_op (if a then x\<lparr>op_seq := db_next d\<rparr> else x)
        (if a then d\<lparr>db_next := db_next d + 1\<rparr> else d))"
  using select_seq_None [of "op_id x" d]
  by (auto simp: appended_def Let_def split: option.splits)

lemma appended_core [simp]: "core (fst (fst (appended x a d))) = core x"
  by (auto simp: appended_def Let_def split: option.splits)

lemma append_tx_ok:
  assumes "db_faults d = []"
  shows "append_tx x a d = (Inr (fst (appended x a d)), snd (appended x a d))"
  using assms
  by (auto simp: append_tx_def appended_def nextServerSeq_def store_simps Let_def split: option.splits)

lemma appended_faults [simp]: "db_faults (snd (appended x a d)) = db_faults d"
  by (auto simp: appended_def Let_def split: option.splits)

lemma AppendOp_ok [store_simps]:
  "db_faults d = [] \<Longrightarrow> Validate x = None \<Longrightarrow>
     AppendOp x a d = (Inr (fst (appended x a d)), snd (appended x a d))"
  by (simp add: AppendOp_def WithTx_ok append_tx_ok)

lemma AppendOp_invalid [store_simps]: "Validate x = Some e \<Longrightarrow> AppendOp x a d = (Inl e, d)"
  by (simp add: AppendOp_def)

section \<open>When statements fail\<close>

text \<open>The tables without the script of outcomes.\<close>

definition tables :: "db \<Rightarrow> db" where
  "tables d = d\<lparr>db_faults := []\<rparr>"

lemma tables_faults [simp]: "tables (d\<lparr>db_faults := f\<rparr>) = tables d"
  by (simp add: tables_def)

lemma tables_rollback [simp]: "tables (rollback d d') = tables d"
  by (simp add: tables_def rollback_def)

text \<open>The script commutes with every other field; it is moved outwards.\<close>

lemma faults_out [simp]:
  "d\<lparr>db_faults := f, db_next := n\<rparr> = d\<lparr>db_next := n, db_faults := f\<rparr>"
  "d\<lparr>db_faults := f, db_records := r\<rparr> = d\<lparr>db_records := r, db_faults := f\<rparr>"
  "d\<lparr>db_faults := f, db_conflicts := c\<rparr> = d\<lparr>db_conflicts := c, db_faults := f\<rparr>"
  "d\<lparr>db_faults := f, db_kv := m\<rparr> = d\<lparr>db_kv := m, db_faults := f\<rparr>"
  "d\<lparr>db_faults := f, db_oplog := l\<rparr> = d\<lparr>db_oplog := l, db_faults := f\<rparr>"
  "d\<lparr>db_faults := f, db_devices := v\<rparr> = d\<lparr>db_devices := v, db_faults := f\<rparr>"
  by simp_all

lemma insert_op_faults [simp]: "insert_op x (d\<lparr>db_faults := f\<rparr>) = (insert_op x d)\<lparr>db_faults := f\<rparr>"
  by (simp add: insert_op_def)

lemma appended_with_faults [simp]:
  "appended x a (d\<lparr>db_faults := f\<rparr>) =
     (fst (appended x a d), (snd (appended x a d))\<lparr>db_faults := f\<rparr>)"
  by (auto simp: appended_def Let_def split: option.splits)

lemma statement_effect: "statement d = (r, d') \<Longrightarrow> \<exists>f. d' = d\<lparr>db_faults := f\<rparr>"
  by (auto simp: statement_def split: list.splits intro: exI [of _ "[]"])

lemma query_effect:
  "query sel d = (r, d') \<Longrightarrow> \<exists>f. d' = d\<lparr>db_faults := f\<rparr> \<and> (\<forall>v. r = Inr v \<longrightarrow> v = sel d')"
  using statement_effect [of d] by (auto simp: query_def split: prod.splits option.splits)

lemma exec_effect:
  "exec upd d = (r, d') \<Longrightarrow>
     \<exists>f. (case r of Inl e \<Rightarrow> d' = d\<lparr>db_faults := f\<rparr> | Inr u \<Rightarrow> d' = upd (d\<lparr>db_faults := f\<rparr>))"
  using statement_effect [of d] by (auto simp: exec_def split: prod.splits option.splits)

lemma WithTx_error:
  assumes "WithTx fn d = (Inl e, d')"
  shows "tables d' = tables d"
proof -
  have "tables (snd (statement t)) = tables t" for t
    using statement_effect [of t "fst (statement t)" "snd (statement t)"] by auto
  then show ?thesis
    using assms
    by (auto simp: WithTx_def split: prod.splits option.splits sum.splits) (metis snd_conv)+
qed

lemma WithTx_success:
  assumes "WithTx fn d = (Inr x, d')"
  obtains f g d2 where "fn (d\<lparr>db_faults := f\<rparr>) = (Inr x, d2)" "d' = d2\<lparr>db_faults := g\<rparr>"
proof -
  obtain d1 d2 where 1: "statement d = (None, d1)" and 2: "fn d1 = (Inr x, d2)"
    and 3: "statement d2 = (None, d')"
    using assms by (auto simp: WithTx_def split: prod.splits option.splits sum.splits)
  obtain f where "d1 = d\<lparr>db_faults := f\<rparr>" using statement_effect [OF 1] by blast
  moreover obtain g where "d' = d2\<lparr>db_faults := g\<rparr>" using statement_effect [OF 3] by blast
  ultimately show ?thesis using 2 that by blast
qed

lemma nextServerSeq_effect:
  assumes "nextServerSeq d = (Inr s, d')"
  shows "s = db_next d \<and> (\<exists>f. d' = d\<lparr>db_next := db_next d + 1, db_faults := f\<rparr>)"
proof -
  obtain u d1 where 1: "exec (\<lambda>t. t\<lparr>db_next := db_next t + 1\<rparr>) d = (Inr u, d1)"
    and 2: "query db_next d1 = (Inr (s + 1), d')"
    using assms by (auto simp: nextServerSeq_def split: prod.splits sum.splits)
  obtain f where "d1 = d\<lparr>db_next := db_next d + 1, db_faults := f\<rparr>"
    using exec_effect [OF 1] by auto
  moreover obtain g where "d' = d1\<lparr>db_faults := g\<rparr>" "s + 1 = db_next d'"
    using query_effect [OF 2] by auto
  ultimately show ?thesis by auto
qed

lemma append_tx_effect:
  assumes "append_tx x a d = (Inr p, d')"
  shows "p = fst (appended x a d) \<and> (\<exists>f. d' = (snd (appended x a d))\<lparr>db_faults := f\<rparr>)"
proof -
  obtain sel d1 where 1: "query (select_seq (op_id x)) d = (Inr sel, d1)"
    using assms by (auto simp: append_tx_def split: prod.splits sum.splits)
  then obtain f where d1: "d1 = d\<lparr>db_faults := f\<rparr>" and sel: "select_seq (op_id x) d = sel"
    using query_effect [OF 1] by auto
  show ?thesis
  proof (cases sel)
    case (Some s)
    with assms 1 d1 sel show ?thesis by (auto simp: append_tx_def appended_def)
  next
    case None
    define y where "y = (if a then x\<lparr>op_seq := db_next d\<rparr> else x)"
    have new: "appended x a d = ((y, True), insert_op y (if a then d\<lparr>db_next := db_next d + 1\<rparr> else d))"
      using None sel by (simp add: appended_def y_def Let_def)
    obtain z d2 u d3 where 2: "a \<longrightarrow> (\<exists>s. nextServerSeq d1 = (Inr s, d2) \<and> z = x\<lparr>op_seq := s\<rparr>)"
      "\<not> a \<longrightarrow> z = x \<and> d2 = d1" and 3: "exec (insert_op z) d2 = (Inr u, d3)"
      and p: "p = (z, True)" "d' = d3"
      using assms 1 None by (auto simp: append_tx_def split: prod.splits sum.splits if_splits)
    have "z = y \<and> (\<exists>f. d2 = (if a then d\<lparr>db_next := db_next d + 1\<rparr> else d)\<lparr>db_faults := f\<rparr>)"
    proof (cases a)
      case True
      with 2(1) obtain s where "nextServerSeq d1 = (Inr s, d2)" "z = x\<lparr>op_seq := s\<rparr>" by blast
      with True d1 show ?thesis by (auto simp: y_def dest!: nextServerSeq_effect)
    next
      case False
      with 2(2) d1 show ?thesis by (auto simp: y_def)
    qed
    then obtain g where z: "z = y"
      and d2: "d2 = (if a then d\<lparr>db_next := db_next d + 1\<rparr> else d)\<lparr>db_faults := g\<rparr>" by blast
    with exec_effect [OF 3] show ?thesis by (auto simp: p new z)
  qed
qed

lemma AppendOp_effect:
  "case AppendOp x a d of
     (Inl e, d') \<Rightarrow> tables d' = tables d
   | (Inr p, d') \<Rightarrow> Validate x = None \<and> p = fst (appended x a d)
       \<and> tables d' = tables (snd (appended x a d))"
proof (cases "AppendOp x a d")
  case (Pair r d')
  show ?thesis
  proof (cases "Validate x")
    case (Some e)
    with Pair show ?thesis by (auto simp: AppendOp_invalid)
  next
    case None
    then have tx: "WithTx (append_tx x a) d = (r, d')" using Pair by (simp add: AppendOp_def)
    show ?thesis
    proof (cases r)
      case (Inl e)
      with tx Pair show ?thesis by (auto dest: WithTx_error)
    next
      case (Inr p)
      with tx obtain f g d2 where "append_tx x a (d\<lparr>db_faults := f\<rparr>) = (Inr p, d2)"
        "d' = d2\<lparr>db_faults := g\<rparr>"
        by (auto elim: WithTx_success)
      with None Pair Inr show ?thesis by (auto dest!: append_tx_effect)
    qed
  qed
qed

text \<open>C12: Whatever statements fail, \<open>AppendOp\<close> is all-or-nothing: if it returns an error the
  tables are as before, otherwise it has returned and done exactly what the failure-free run
  does, which on an id already stored is nothing.\<close>

theorem AppendOp_all_or_nothing:
  "case AppendOp x a d of
     (Inl e, d') \<Rightarrow> tables d' = tables d
   | (Inr p, d') \<Rightarrow> Validate x = None \<and> p = fst (appended x a d)
       \<and> tables d' = tables (snd (appended x a d))"
  by (rule AppendOp_effect)

section \<open>The server's checkpoints\<close>

text \<open>
  On the server every insert assigns a checkpoint, so the log's checkpoints are 1, 2, 3, \<dots> in
  row order and the counter is one past the last.
\<close>

definition dense_log :: "db \<Rightarrow> bool" where
  "dense_log d \<longleftrightarrow>
     map op_seq (ops d) = map int [1..<Suc (length (ops d))] \<and> db_next d = int (length (ops d)) + 1"

lemma dense_log_empty [simp]: "dense_log empty_db"
  by (simp add: dense_log_def empty_db_def ops_def)

lemma dense_log_cong: "ops d = ops e \<Longrightarrow> db_next d = db_next e \<Longrightarrow> dense_log d = dense_log e"
  by (simp add: dense_log_def)

lemma tables_eq:
  assumes "tables d = tables e"
  shows "ops d = ops e" "db_next d = db_next e" "db_records d = db_records e" "db_kv d = db_kv e"
    "db_conflicts d = db_conflicts e" "db_devices d = db_devices e" "db_oplog d = db_oplog e"
  using arg_cong [OF assms, of db_oplog] arg_cong [OF assms, of db_next]
    arg_cong [OF assms, of db_records] arg_cong [OF assms, of db_kv]
    arg_cong [OF assms, of db_devices] arg_cong [OF assms, of db_conflicts]
  by (simp_all add: tables_def ops_def)

lemma dense_log_appended: "dense_log d \<Longrightarrow> dense_log (snd (appended x True d))"
  by (auto simp: appended_def dense_log_def Let_def split: option.splits)

text \<open>C13: Starting from checkpoints 1 to n, \<open>AppendOp\<close> on the server keeps them dense whatever
  statements fail, and an inserted operation is given checkpoint n + 1: none is skipped, reused or
  reordered.\<close>

theorem AppendOp_checkpoints:
  assumes "dense_log d" and "AppendOp x True d = (r, d')"
  shows "dense_log d' \<and> (\<forall>y. r = Inr (y, True) \<longrightarrow>
    op_seq y = int (length (ops d)) + 1 \<and> ops d' = ops d @ [y])"
proof (cases r)
  case (Inl e)
  then have "tables d' = tables d" using AppendOp_effect [where x = x and a = True and d = d] assms(2) by simp
  with assms(1) Inl show ?thesis using dense_log_cong tables_eq by blast
next
  case (Inr p)
  then have p: "p = fst (appended x True d)" and t: "tables d' = tables (snd (appended x True d))"
    using AppendOp_effect [where x = x and a = True and d = d] assms(2) by simp_all
  have "dense_log d'" using dense_log_appended [OF assms(1)] dense_log_cong tables_eq [OF t] by blast
  moreover have "op_seq y = int (length (ops d)) + 1 \<and> ops d' = ops d @ [y]" if "p = (y, True)" for y
    using that p assms(1) tables_eq(1) [OF t]
    by (auto simp: appended_def Let_def dense_log_def split: option.splits)
  ultimately show ?thesis using Inr by simp
qed

theorem AppendOp_checkpoints_witness:
  "dense_log (snd (AppendOp opA True (empty_db\<lparr>db_faults := [None, None, Some ''disk I/O error'']\<rparr>)))"
proof -
  let ?d = "empty_db\<lparr>db_faults := [None, None, Some ''disk I/O error'']\<rparr>"
  have "dense_log ?d" using dense_log_empty by (simp add: dense_log_def)
  then show ?thesis
    using AppendOp_checkpoints [where d = ?d and x = opA and r = "fst (AppendOp opA True ?d)"
      and d' = "snd (AppendOp opA True ?d)"] by simp
qed

section \<open>Reading the log in pages\<close>

definition since_ops :: "int \<Rightarrow> string \<Rightarrow> db \<Rightarrow> op list" where
  "since_ops since collection d =
     filter (\<lambda>x. op_seq x > since \<and> op_seq x > 0
               \<and> (collection \<noteq> [] \<longrightarrow> op_collection x = collection)) (ops d)"

definition page_size :: "i64 \<Rightarrow> nat" where
  "page_size limit = (if sint limit \<le> 0 then 100 else nat (sint limit))"

definition seq_sorted :: "db \<Rightarrow> bool" where
  "seq_sorted d \<longleftrightarrow> sorted_wrt (\<lambda>x y. op_seq x < op_seq y) (ops d)"

lemma dense_log_sorted: "dense_log d \<Longrightarrow> seq_sorted d"
  unfolding dense_log_def seq_sorted_def sorted_wrt_map [symmetric, of "(<)" op_seq]
  by (simp add: sorted_wrt_map del: upt_Suc)

lemma since_ops_sorted: "seq_sorted d \<Longrightarrow> sorted_wrt (\<lambda>x y. op_seq x < op_seq y) (since_ops since c d)"
  by (simp add: seq_sorted_def since_ops_def sorted_wrt_filter)

lemma sort_since_ops: "seq_sorted d \<Longrightarrow> sort_key op_seq (since_ops since c d) = since_ops since c d"
proof (rule sort_key_id_if_sorted)
  assume "seq_sorted d"
  then have "sorted_wrt (\<lambda>x y. op_seq x \<le> op_seq y) (since_ops since c d)"
    by (rule sorted_wrt_mono_rel [rotated, OF since_ops_sorted]) simp
  then show "sorted (map op_seq (since_ops since c d))" by (simp add: sorted_wrt_map)
qed

lemma sint_Suc: "sint (n + 1 :: i64) = (if sint n = 2 ^ 63 - 1 then - (2 ^ 63) else sint n + 1)"
proof -
  have r: "- (2 ^ 63) \<le> sint n" "sint n < 2 ^ 63"
    using sint_ge [of n] sint_lt [of n] by simp_all
  have "sint (n + 1) = signed_take_bit 63 (sint n + 1)"
    by (simp add: sint_word_ariths(1))
  also have "\<dots> = (if sint n = 2 ^ 63 - 1 then - (2 ^ 63) else sint n + 1)"
    using r by (auto simp: signed_take_bit_int_eq_self_iff)
  finally show ?thesis .
qed

lemma page_of_limit:
  assumes "0 < sint lim" and "found = sql_limit (lim + 1) all"
  shows "int (length found) > sint lim \<longleftrightarrow> length all > nat (sint lim)"
    and "(if length all > nat (sint lim) then take (nat (sint lim)) found else found)
      = take (nat (sint lim)) all"
  using assms by (auto simp: sql_limit_def sint_Suc min_def nat_add_distrib)

lemma OpsSince_result:
  assumes "db_faults d = []" and "seq_sorted d"
  shows "OpsSince since collection limit d =
    (let all = since_ops since collection d; p = take (page_size limit) all
     in (Inr (p, if p \<noteq> [] then op_seq (last p) else since, length all > page_size limit), d))"
proof -
  define lim where "lim = (if sint limit \<le> 0 then 100 else limit)"
  define all where "all = since_ops since collection d"
  have lim: "0 < sint lim" "nat (sint lim) = page_size limit"
    by (auto simp: lim_def page_size_def)
  have "select_since since collection (lim + 1) d = sql_limit (lim + 1) all"
    using sort_since_ops [OF assms(2), of since collection]
    by (simp add: select_since_def all_def since_ops_def)
  note found = page_of_limit [OF lim(1) this]
  have "OpsSince since collection limit d =
    (let p = take (nat (sint lim)) all
     in (Inr (p, if p \<noteq> [] then op_seq (last p) else since, length all > nat (sint lim)), d))"
    unfolding OpsSince_def lim_def [symmetric] Let_def query_ok [OF assms(1)] found(1)
    by (simp only: prod.case sum.case found)
  then show ?thesis by (simp only: lim(2) all_def Let_def)
qed

lemma OpsSince_page_eq:
  assumes "db_faults d = []" and "seq_sorted d"
    and "OpsSince since collection limit d = (Inr (page, nxt, hasMore), d')"
  shows "page = take (page_size limit) (since_ops since collection d)
    \<and> since_ops nxt collection d = drop (page_size limit) (since_ops since collection d)
    \<and> hasMore = (since_ops nxt collection d \<noteq> []) \<and> d' = d"
proof -
  define all where "all = since_ops since collection d"
  have size: "0 < page_size limit" by (simp add: page_size_def)
  have res: "page = take (page_size limit) all" "hasMore = (length all > page_size limit)"
    "nxt = (if page \<noteq> [] then op_seq (last page) else since)" "d' = d"
    using assms(3) unfolding OpsSince_result [OF assms(1,2)] all_def Let_def by auto
  have "since_ops nxt collection d = drop (page_size limit) all"
  proof (cases "all = []")
    case True
    with res show ?thesis by (simp add: all_def)
  next
    case False
    with size have ne: "page \<noteq> []" using res(1) by auto
    have split: "all = page @ drop (page_size limit) all" using res(1) by simp
    have sorted: "sorted_wrt (\<lambda>x y. op_seq x < op_seq y) (page @ drop (page_size limit) all)"
      using since_ops_sorted [OF assms(2)] split all_def by metis
    have init: "x \<in> set page \<Longrightarrow> op_seq x \<le> op_seq (last page)" for x
      using sorted ne by (cases page rule: rev_cases) (auto simp: sorted_wrt_append)
    have tail: "x \<in> set (drop (page_size limit) all) \<Longrightarrow> op_seq (last page) < op_seq x" for x
      using sorted ne by (auto simp: sorted_wrt_append)
    have "last page \<in> set all" using split ne last_in_set by (metis UnI1 set_append)
    then have "since < op_seq (last page)" by (simp add: all_def since_ops_def)
    then have "since_ops nxt collection d = filter (\<lambda>x. op_seq x > op_seq (last page)) all"
      unfolding all_def since_ops_def using res(3) ne by (auto intro: filter_cong)
    also have "\<dots> = filter (\<lambda>x. op_seq x > op_seq (last page)) (page @ drop (page_size limit) all)"
      using split by simp
    also have "\<dots> = drop (page_size limit) all"
      using init tail by (auto simp: filter_empty_conv leD intro!: filter_True)
    finally show ?thesis .
  qed
  with res show ?thesis by (auto simp: all_def)
qed

text \<open>Without a collection, a dense log is read by position.\<close>

lemma since_ops_dense: "dense_log d \<Longrightarrow> 0 \<le> k \<Longrightarrow> since_ops k [] d = drop (nat k) (ops d)"
proof -
  assume d: "dense_log d" and k: "0 \<le> k"
  have "filter (\<lambda>x. op_seq x > k) xs = drop (nat k - m) xs"
    if "map op_seq xs = map int [Suc m..<Suc (m + length xs)]" for xs :: "op list" and m
    using that
  proof (induction xs arbitrary: m)
    case Nil
    then show ?case by simp
  next
    case (Cons x xs)
    have "[Suc m..<Suc (m + length (x # xs))] = Suc m # [Suc (Suc m)..<Suc (Suc m + length xs)]"
      by (simp add: upt_conv_Cons del: upt_Suc)
    with Cons.prems have x: "op_seq x = int (Suc m)"
      and xs: "map op_seq xs = map int [Suc (Suc m)..<Suc (Suc m + length xs)]"
      by (simp_all del: upt_Suc)
    show ?case
    proof (cases "nat k - m")
      case 0
      with Cons.IH [OF xs] x k show ?thesis by auto
    next
      case (Suc l)
      then have "nat k - Suc m = l" by simp
      with Suc Cons.IH [OF xs] x k show ?thesis by auto
    qed
  qed
  from this [of "ops d" 0] d have f: "filter (\<lambda>x. op_seq x > k) (ops d) = drop (nat k) (ops d)"
    by (simp add: dense_log_def)
  have "filter (\<lambda>x. op_seq x > k \<and> op_seq x > 0) (ops d) = filter (\<lambda>x. op_seq x > k) (ops d)"
    using k by (intro filter_cong) auto
  with f show ?thesis by (simp add: since_ops_def)
qed

lemma dense_log_nth: "dense_log d \<Longrightarrow> j < length (ops d) \<Longrightarrow> op_seq (ops d ! j) = int (Suc j)"
proof -
  assume "dense_log d" and j: "j < length (ops d)"
  then have "map op_seq (ops d) ! j = map int [1..<Suc (length (ops d))] ! j"
    by (simp add: dense_log_def)
  with j show ?thesis by (simp del: upt_Suc)
qed

lemma OpsSince_dense:
  assumes "db_faults d = []" and "dense_log d" and "0 \<le> k" and "k \<le> int (length (ops d))"
  shows "OpsSince k [] limit d =
    (let p = take (page_size limit) (drop (nat k) (ops d))
     in (Inr (p, k + int (length p), length (drop (nat k) (ops d)) > page_size limit), d))"
proof -
  let ?p = "take (page_size limit) (drop (nat k) (ops d))"
  have "op_seq (last ?p) = k + int (length ?p)" if "?p \<noteq> []"
  proof -
    have j: "nat k + (length ?p - 1) < length (ops d)" and l: "length ?p - 1 < length ?p"
      using that assms(3,4) by (auto simp: min_def)
    have "last ?p = drop (nat k) (ops d) ! (length ?p - 1)"
      using that l nth_take [of "length ?p - 1" "page_size limit" "drop (nat k) (ops d)"]
      by (simp add: last_conv_nth)
    also have "\<dots> = ops d ! (nat k + (length ?p - 1))"
      using j by (intro nth_drop) simp
    finally have eq: "last ?p = ops d ! (nat k + (length ?p - 1))" .
    have "Suc (nat k + (length ?p - 1)) = nat k + length ?p"
      using l by linarith
    with dense_log_nth [OF assms(2) j] have "op_seq (last ?p) = int (nat k + length ?p)"
      unfolding eq by (simp only:)
    with assms(3) show ?thesis by (simp only: of_nat_add int_nat_eq if_True)
  qed
  then show ?thesis
    unfolding OpsSince_result [OF assms(1) dense_log_sorted [OF assms(2)]]
    by (auto simp: since_ops_dense [OF assms(2,3)] Let_def)
qed

text \<open>C14: A page holds the first \<open>limit\<close> (100 if not positive) operations after the checkpoint,
  of the collection if one is given, in checkpoint order; \<open>hasMore\<close> says whether any are left,
  and reading on from \<open>nextCheckpoint\<close> gives exactly those that are left.\<close>

theorem OpsSince_page:
  assumes "db_faults d = []" and "seq_sorted d"
    and "OpsSince since collection limit d = (Inr (page, nxt, hasMore), d')"
  shows "page = take (page_size limit) (since_ops since collection d)
    \<and> since_ops nxt collection d = drop (page_size limit) (since_ops since collection d)
    \<and> hasMore = (since_ops nxt collection d \<noteq> []) \<and> d' = d"
  by (rule OpsSince_page_eq [OF assms])

text \<open>A store with three operations, for examples.\<close>

definition example_db :: db where
  "example_db = snd (appended opC True (snd (appended opB True (snd (appended opA True empty_db)))))"

lemma ops_example: "ops example_db = [opA\<lparr>op_seq := 1\<rparr>, opB\<lparr>op_seq := 2\<rparr>, opC\<lparr>op_seq := 3\<rparr>]"
  by (simp add: example_db_def appended_def select_seq_def empty_db_def ops_def insert_op_def Let_def)

lemma example_db_simps [simp]: "db_faults example_db = []" "seq_sorted example_db"
  by (simp_all add: example_db_def empty_db_def)
    (simp add: seq_sorted_def ops_example [unfolded example_db_def empty_db_def])

theorem OpsSince_page_witness:
  "since_ops 2 [] example_db = drop (page_size 2) (since_ops 0 [] example_db)"
proof -
  have "OpsSince 0 [] 2 example_db =
      (Inr ([opA\<lparr>op_seq := 1\<rparr>, opB\<lparr>op_seq := 2\<rparr>], 2, True), example_db)"
    by (simp add: OpsSince_def select_since_def store_simps ops_example sql_limit_def Let_def)
  then show ?thesis
    using OpsSince_page [of example_db 0 "[]" 2] by simp
qed

section \<open>The outbox\<close>

lemma mark_loop_ok:
  "db_faults d = [] \<Longrightarrow> mark_loop is d =
     (Inr (), d\<lparr>db_oplog := map (\<lambda>r. if op_id (row_op r) \<in> set is then r\<lparr>row_pushed := True\<rparr> else r)
                             (db_oplog d)\<rparr>)"
proof (induction "is" arbitrary: d)
  case Nil
  then show ?case by simp
next
  case (Cons i js)
  then show ?case
    by (auto simp: store_simps set_pushed_def comp_def intro!: map_cong)
qed

lemma MarkPushed_ok [store_simps]:
  "db_faults d = [] \<Longrightarrow> MarkPushed is d =
     (Inr (), d\<lparr>db_oplog := map (\<lambda>r. if op_id (row_op r) \<in> set is then r\<lparr>row_pushed := True\<rparr> else r)
                             (db_oplog d)\<rparr>)"
  by (cases "is = []")
    (simp_all add: MarkPushed_def mark_loop_ok WithTx_ok store_simps del: mark_loop.simps)

text \<open>C32: \<open>MarkPushed\<close> removes from the outbox exactly the given ids and keeps the order of the
  rest; the log itself is unchanged.\<close>

theorem MarkPushed_outbox:
  assumes "db_faults d = []" and "fst (UnpushedOps dev d) = Inr out"
  shows "fst (UnpushedOps dev (snd (MarkPushed is d))) = Inr (filter (\<lambda>x. op_id x \<notin> set is) out)
    \<and> ops (snd (MarkPushed is d)) = ops d"
  using assms
  by (auto simp: UnpushedOps_def store_simps ops_def filter_map comp_def if_distrib
      filter_filter conj_commute cong: if_cong intro!: arg_cong [where f = "map row_op"] filter_cong)

theorem MarkPushed_outbox_witness:
  "fst (UnpushedOps ''device-b'' (snd (MarkPushed [''op-a''] example_db))) = Inr [opB\<lparr>op_seq := 2\<rparr>]"
proof -
  have "fst (UnpushedOps ''device-b'' example_db) = Inr [opB\<lparr>op_seq := 2\<rparr>]"
    by (simp add: UnpushedOps_def store_simps)
      (simp add: example_db_def appended_def select_seq_def empty_db_def ops_def insert_op_def Let_def)
  then show ?thesis
    using MarkPushed_outbox [of example_db "''device-b''" _ "[''op-a'']"] by simp
qed

section \<open>Devices\<close>

lemma find_upsert_id: "find (\<lambda>e. dev_id e = i) (upsert_device v ds) =
    (if i = dev_id v
     then Some (case find (\<lambda>e. dev_id e = i) ds of
                  None \<Rightarrow> v
                | Some e \<Rightarrow> e\<lparr>dev_name := dev_name v, dev_hash := dev_hash v\<rparr>)
     else find (\<lambda>e. dev_id e = i) ds)"
  by (induction v ds rule: upsert_device.induct) auto

lemma upsert_ids: "dev_id ` set (upsert_device v ds) = insert (dev_id v) (dev_id ` set ds)"
  by (induction v ds rule: upsert_device.induct) auto

lemma upsert_distinct: "distinct (map dev_id ds) \<Longrightarrow> distinct (map dev_id (upsert_device v ds))"
proof (induction v ds rule: upsert_device.induct)
  case (2 v e ds)
  then show ?case using upsert_ids [of v ds] by auto
qed simp

lemma find_upsert_hash:
  "(\<forall>e \<in> set ds. dev_hash e = dev_hash v \<longrightarrow> dev_id e = dev_id v) \<Longrightarrow>
   \<exists>e. find (\<lambda>e. dev_hash e = dev_hash v) (upsert_device v ds) = Some e \<and> dev_id e = dev_id v"
proof (induction ds)
  case (Cons e ds)
  show ?case
  proof (cases "dev_id e = dev_id v")
    case True
    then show ?thesis by simp
  next
    case False
    with Cons.prems have "dev_hash e \<noteq> dev_hash v" by simp
    with False Cons show ?thesis by simp
  qed
qed simp

lemma find_upsert_old_hash:
  "distinct (map dev_id ds) \<Longrightarrow> h \<noteq> dev_hash v \<Longrightarrow>
   (\<forall>e \<in> set ds. dev_hash e = h \<longrightarrow> dev_id e = dev_id v) \<Longrightarrow>
   find (\<lambda>e. dev_hash e = h) (upsert_device v ds) = None"
proof (induction ds)
  case (Cons e ds)
  show ?case
  proof (cases "dev_id e = dev_id v")
    case True
    with Cons.prems(1) have "dev_id v \<notin> dev_id ` set ds" by simp
    with Cons.prems(3) have "\<forall>f \<in> set ds. dev_hash f \<noteq> h"
      by (metis imageI list.set_intros(2))
    then have "find (\<lambda>e. dev_hash e = h) ds = None" by (simp add: find_None_iff)
    with True Cons.prems(2) show ?thesis by simp
  next
    case False
    with Cons.prems(3) have "dev_hash e \<noteq> h" by simp
    moreover have "find (\<lambda>e. dev_hash e = h) (upsert_device v ds) = None"
      using Cons.prems by (intro Cons.IH) simp_all
    ultimately show ?thesis using False by simp
  qed
qed simp

end
