(* ===== verification/WireApi.thy ===== *)
theory WireApi
  imports Oplog
begin

text \<open>
  The wire protocol of \<open>pkg/api/api.go\<close>: the request and response bodies, and the conversions
  between an operation and its wire form. The JSON text of a body is not modelled: a body is
  the value \<open>encoding/json\<close> decodes it to, or a decode error.
\<close>

section \<open>Bodies\<close>

record wire_hlc =
  wh_physical :: int
  wh_logical :: u32
  wh_node :: string

record wire_op =
  wo_id :: string
  wo_device :: string
  wo_collection :: string
  wo_record :: string
  wo_type :: string
  wo_payload :: "string option"
  wo_vv :: vector
  wo_hlc :: wire_hlc
  wo_seq :: int

record register_request =
  rq_device :: string
  rq_name :: string

record register_response =
  rs_device :: string
  rs_token :: string

record conflict_info =
  ci_collection :: string
  ci_record :: string
  ci_winner :: string
  ci_loser :: string

record push_response =
  pr_accepted :: "string list"
  pr_conflicts :: "conflict_info list"
  pr_checkpoint :: int

record pull_response =
  pl_ops :: "wire_op list"
  pl_next :: int
  pl_more :: bool

record status_response =
  st_device :: string
  st_checkpoint :: int
  st_conflicts :: nat

record record_response =
  rr_collection :: string
  rr_record :: string
  rr_payload :: "string option"
  rr_deleted :: bool
  rr_vv :: vector

section \<open>Conversions\<close>

definition hlcToWire :: "timestamp \<Rightarrow> wire_hlc" where
  "hlcToWire t = \<lparr>wh_physical = physical t, wh_logical = logical t, wh_node = node_id t\<rparr>"

definition hlcToDomain :: "wire_hlc \<Rightarrow> timestamp" where
  "hlcToDomain h = Timestamp (wh_physical h) (wh_logical h) (wh_node h)"

definition FromOplog :: "op \<Rightarrow> wire_op" where
  "FromOplog x = \<lparr>wo_id = op_id x, wo_device = op_device x, wo_collection = op_collection x,
     wo_record = op_record x, wo_type = op_type x, wo_payload = op_payload x, wo_vv = op_vv x,
     wo_hlc = hlcToWire (op_hlc x), wo_seq = op_seq x\<rparr>"

definition ToOplog :: "wire_op \<Rightarrow> op result" where
  "ToOplog w =
     (if wo_type w \<noteq> Create \<and> wo_type w \<noteq> Update \<and> wo_type w \<noteq> Delete
      then Inl (ErrNew (''api: invalid op type '' @ wo_type w))
      else
        let x = \<lparr>op_id = wo_id w, op_device = wo_device w, op_collection = wo_collection w,
                  op_record = wo_record w, op_type = wo_type w, op_payload = wo_payload w,
                  op_vv = wo_vv w, op_hlc = hlcToDomain (wo_hlc w), op_seq = wo_seq w\<rparr>
        in case Validate x of Some e \<Rightarrow> Inl e | None \<Rightarrow> Inr x)"

lemma hlc_wire [simp]: "hlcToDomain (hlcToWire t) = t" "hlcToWire (hlcToDomain h) = h"
  by (simp_all add: hlcToDomain_def hlcToWire_def)

lemma ToOplog_FromOplog_eq: "ToOplog (FromOplog x) =
    (if valid_type (op_type x) then (case Validate x of Some e \<Rightarrow> Inl e | None \<Rightarrow> Inr x)
     else Inl (ErrNew (''api: invalid op type '' @ op_type x)))"
proof -
  have "\<lparr>op_id = op_id x, op_device = op_device x, op_collection = op_collection x,
      op_record = op_record x, op_type = op_type x, op_payload = op_payload x,
      op_vv = op_vv x, op_hlc = op_hlc x, op_seq = op_seq x\<rparr> = x"
    by simp
  then show ?thesis
    unfolding ToOplog_def FromOplog_def Let_def wire_op.select_convs hlc_wire valid_type_def
    by (simp only: de_Morgan_disj simp_thms if_not_P split: if_split) simp
qed

lemma ToOplog_FromOplog: "Validate x = None \<Longrightarrow> ToOplog (FromOplog x) = Inr x"
  by (simp add: ToOplog_FromOplog_eq) (simp add: Validate_None_iff)

lemma ToOplog_Inr:
  assumes "ToOplog w = Inr x"
  shows "Validate x = None" "FromOplog x = w"
proof -
  have w: "FromOplog \<lparr>op_id = wo_id w, op_device = wo_device w, op_collection = wo_collection w,
      op_record = wo_record w, op_type = wo_type w, op_payload = wo_payload w,
      op_vv = wo_vv w, op_hlc = hlcToDomain (wo_hlc w), op_seq = wo_seq w\<rparr> = w"
    by (simp add: FromOplog_def)
  from assms show "Validate x = None"
    by (auto simp: ToOplog_def Let_def split: if_splits option.splits)
  from assms w show "FromOplog x = w"
    by (auto simp: ToOplog_def Let_def split: if_splits option.splits)
qed

text \<open>C40: The wire form loses nothing: exactly the valid operations survive the round trip, and an
  accepted wire operation is the wire form of the operation it decodes to.\<close>

theorem wire_round_trip:
  "(ToOplog (FromOplog x) = Inr x \<longleftrightarrow> Validate x = None)
   \<and> (ToOplog w = Inr x \<longleftrightarrow> FromOplog x = w \<and> Validate x = None)"
  using ToOplog_FromOplog ToOplog_Inr by blast

end
