(* ===== verification/Acceptance.thy ===== *)
theory Acceptance
  imports SqliteStore ReplicaLog WireApi
begin

text \<open>
  The effect of accepting an operation into a store, in one equation: append it unless its id is
  known, resolve it against the materialised record, write the record back and log a conflict.
  The server's push and the client's pull are proved to do this when no statement fails.
\<close>

section \<open>Effect\<close>

definition view :: "db \<Rightarrow> string \<times> string \<Rightarrow> record_state option" where
  "view d k = fmlookup (db_records d) k"

lemma empty_db_simps [simp]:
  "db_faults empty_db = []" "ops empty_db = []" "view empty_db = (\<lambda>k. None)" "db_kv empty_db = fmempty"
  "db_next empty_db = 1" "db_devices empty_db = []"
  by (simp_all add: empty_db_def ops_def view_def fun_eq_iff)

definition decide :: "op \<Rightarrow> db \<Rightarrow> decision" where
  "decide x d =
     (case view d (op_key x) of
        None \<Rightarrow> Resolve zero_record False x
      | Some r \<Rightarrow> Resolve r True x)"

definition store_record :: "record_state \<Rightarrow> db \<Rightarrow> db" where
  "store_record r d = d\<lparr>db_records := fmupd (rec_key r) r (db_records d)\<rparr>"

definition conflict_row :: "(op \<Rightarrow> time) \<Rightarrow> op \<Rightarrow> decision \<Rightarrow> conflict" where
  "conflict_row now x dec = \<lparr>con_id = 0, con_collection = op_collection x,
     con_record = op_record x, con_winner = dec_winner dec, con_loser = dec_loser dec,
     con_seq = op_seq x, con_at = now x\<rparr>"

definition store_conflict :: "conflict \<Rightarrow> db \<Rightarrow> db" where
  "store_conflict c d =
     d\<lparr>db_conflicts := db_conflicts d @ [c\<lparr>con_id := int (length (db_conflicts d)) + 1\<rparr>]\<rparr>"

definition accept :: "(op \<Rightarrow> time) \<Rightarrow> bool \<Rightarrow> op \<Rightarrow> db \<Rightarrow> db" where
  "accept now assignSeq x d =
     (let ((y, inserted), d1) = appended x assignSeq d;
          dec = decide y d1;
          d2 = store_record (dec_record dec) d1
      in if \<not> inserted then d1
         else if dec_conflicted dec then store_conflict (conflict_row now y dec) d2
         else d2)"

lemma store_simps_fields [simp]:
  "ops (store_record r d) = ops d" "db_faults (store_record r d) = db_faults d"
  "db_next (store_record r d) = db_next d" "db_kv (store_record r d) = db_kv d"
  "db_devices (store_record r d) = db_devices d" "db_oplog (store_record r d) = db_oplog d"
  "ops (store_conflict c d) = ops d" "db_faults (store_conflict c d) = db_faults d"
  "db_next (store_conflict c d) = db_next d" "db_kv (store_conflict c d) = db_kv d"
  "db_devices (store_conflict c d) = db_devices d" "db_oplog (store_conflict c d) = db_oplog d"
  "db_records (store_conflict c d) = db_records d"
  by (simp_all add: store_record_def store_conflict_def ops_def)

lemma view_store_record [simp]: "view (store_record r d) = (view d)(rec_key r \<mapsto> r)"
  by (auto simp: view_def store_record_def fun_eq_iff)

lemma view_store_conflict [simp]: "view (store_conflict c d) = view d"
  by (simp add: view_def fun_eq_iff)

lemma appended_fields [simp]:
  "db_records (snd (appended x a d)) = db_records d" "db_kv (snd (appended x a d)) = db_kv d"
  "db_devices (snd (appended x a d)) = db_devices d"
  "db_conflicts (snd (appended x a d)) = db_conflicts d"
  by (auto simp: appended_def Let_def split: option.splits)

lemma view_appended [simp]: "view (snd (appended x a d)) = view d"
  by (simp add: view_def fun_eq_iff)

lemma decide_record: "Some (dec_record (decide x d)) = materialize (view d (op_key x)) x"
  by (simp add: decide_def materialize_def split: option.split)

lemma decide_core: "core x = core y \<Longrightarrow> view d = view e \<Longrightarrow> decide x d = decide y e"
proof -
  assume c: "core x = core y" and v: "view d = view e"
  have "op_key x = op_key y" using arg_cong [OF c, of op_key] by simp
  moreover have "Resolve r b x = Resolve r b y" for r b
    using arg_cong [OF c, of "Resolve r b"] by simp
  ultimately show ?thesis using v by (simp add: decide_def split: option.split)
qed

section \<open>The code's steps\<close>

text \<open>
  What server and client do with an operation when no statement fails: the results of the store
  calls in their order, and that together they make up \<open>accept\<close>.
\<close>

lemma GetRecord_ok:
  "db_faults d = [] \<Longrightarrow> GetRecord c i d =
     (Inr (case view d (c, i) of None \<Rightarrow> (zero_record, False) | Some r \<Rightarrow> (r, True)), d)"
  by (simp add: GetRecord_def view_def store_simps)

lemma PutRecord_ok: "db_faults d = [] \<Longrightarrow> PutRecord r d = (Inr (), store_record r d)"
  by (simp add: PutRecord_def store_record_def store_simps)

lemma RecordConflict_ok: "db_faults d = [] \<Longrightarrow> RecordConflict c d = (Inr (), store_conflict c d)"
  by (simp add: RecordConflict_def store_conflict_def store_simps)

lemma decide_found:
  "(case view d (op_collection x, op_record x) of None \<Rightarrow> (zero_record, False) | Some r \<Rightarrow> (r, True))
     = (existing, found) \<Longrightarrow> Resolve existing found x = decide x d"
  by (auto simp: decide_def op_key_def split: option.splits)

lemma accept_known_steps:
  assumes "db_faults d = []" and "Validate x = None" and "op_id x \<in> op_id ` set (ops d)"
  shows "\<exists>s. AppendOp x a d = (Inr (x\<lparr>op_seq := s\<rparr>, False), d)"
proof -
  obtain s where "appended x a d = ((x\<lparr>op_seq := s\<rparr>, False), d)"
    using assms(3) select_seq_None [of "op_id x" d] by (auto simp: appended_def split: option.splits)
  with assms(1,2) have "AppendOp x a d = (Inr (x\<lparr>op_seq := s\<rparr>, False), d)" by (simp add: AppendOp_ok)
  then show ?thesis ..
qed

lemma accept_steps:
  assumes f: "db_faults d = []" and v: "Validate x = None" and new: "op_id x \<notin> op_id ` set (ops d)"
  shows "\<exists>y d1 existing found.
    AppendOp x a d = (Inr (y, True), d1)
    \<and> op_id y = op_id x \<and> op_collection y = op_collection x \<and> op_record y = op_record x
    \<and> GetRecord (op_collection x) (op_record x) d1 = (Inr (existing, found), d1)
    \<and> Resolve existing found y = decide x d
    \<and> PutRecord (dec_record (decide x d)) d1 = (Inr (), store_record (dec_record (decide x d)) d1)
    \<and> RecordConflict (conflict_row now y (decide x d)) (store_record (dec_record (decide x d)) d1)
        = (Inr (), store_conflict (conflict_row now y (decide x d)) (store_record (dec_record (decide x d)) d1))
    \<and> accept now a x d =
        (if dec_conflicted (decide x d)
         then store_conflict (conflict_row now y (decide x d)) (store_record (dec_record (decide x d)) d1)
         else store_record (dec_record (decide x d)) d1)"
proof -
  define y where "y = (if a then x\<lparr>op_seq := db_next d\<rparr> else x)"
  define d1 where "d1 = insert_op y (if a then d\<lparr>db_next := db_next d + 1\<rparr> else d)"
  have app: "appended x a d = ((y, True), d1)"
    using appended_simps(2) [OF new, of a] by (simp add: y_def d1_def)
  have f1: "db_faults d1 = []" using f by (simp add: d1_def)
  have y: "op_id y = op_id x" "op_collection y = op_collection x" "op_record y = op_record x"
    by (simp_all add: y_def)
  have v1: "view d1 = view d" by (simp add: d1_def view_def fun_eq_iff)
  have dec: "decide y d1 = decide x d" by (rule decide_core [OF _ v1]) (simp add: y_def)
  obtain existing found where ef: "(case view d1 (op_collection x, op_record x) of
      None \<Rightarrow> (zero_record, False) | Some r \<Rightarrow> (r, True)) = (existing, found)" by fastforce
  have "Resolve existing found y = decide y d1" by (rule decide_found) (simp add: y ef)
  then show ?thesis
    using f f1 v y dec
    by (intro exI [of _ y] exI [of _ d1] exI [of _ existing] exI [of _ found])
      (simp add: AppendOp_ok app GetRecord_ok ef PutRecord_ok RecordConflict_ok accept_def Let_def)
qed

text \<open>The conflicts reported for an operation.\<close>

definition conflict_infos :: "op \<Rightarrow> db \<Rightarrow> conflict_info list" where
  "conflict_infos x d =
     (if op_id x \<in> op_id ` set (ops d) \<or> \<not> dec_conflicted (decide x d) then []
      else [\<lparr>ci_collection = op_collection x, ci_record = op_record x,
              ci_winner = dec_winner (decide x d), ci_loser = dec_loser (decide x d)\<rparr>])"

section \<open>Records stand under their keys\<close>

definition keyed :: "db \<Rightarrow> bool" where
  "keyed d \<longleftrightarrow> fmpred (\<lambda>k r. rec_key r = k) (db_records d)"

lemma keyed_empty [simp]: "keyed empty_db"
  by (simp add: keyed_def empty_db_def)

lemma keyedD: "keyed d \<Longrightarrow> view d k = Some r \<Longrightarrow> rec_key r = k"
  by (auto simp: keyed_def view_def)

lemma keyed_view: "keyed d \<longleftrightarrow> (\<forall>k r. view d k = Some r \<longrightarrow> rec_key r = k)"
  by (auto simp: keyed_def view_def intro: fmpredI)

lemma rec_key_Resolve: "(e \<Longrightarrow> rec_key r = op_key x) \<Longrightarrow> rec_key (dec_record (Resolve r e x)) = op_key x"
  by (cases e; cases "Compare (rec_vv r) (op_vv x)")
    (auto simp: Resolve_branches rec_key_def op_key_def)

lemma rec_key_decide: "keyed d \<Longrightarrow> rec_key (dec_record (decide x d)) = op_key x"
  by (auto simp: decide_def rec_key_Resolve dest: keyedD split: option.split)

section \<open>Facts\<close>

lemma accept_known: "op_id x \<in> op_id ` set (ops d) \<Longrightarrow> accept now a x d = d"
  using appended_simps(1) [of x d a] by (auto simp: accept_def Let_def split: prod.splits)

lemma accept_new:
  fixes a :: bool
  assumes "op_id x \<notin> op_id ` set (ops d)"
  defines "y \<equiv> (if a then x\<lparr>op_seq := db_next d\<rparr> else x)"
  shows "ops (accept now a x d) = ops d @ [y]"
    and "view (accept now a x d) = (view d)(rec_key (dec_record (decide x d)) \<mapsto> dec_record (decide x d))"
    and "db_next (accept now a x d) = (if a then db_next d + 1 else db_next d)"
proof -
  let ?d1 = "insert_op y (if a then d\<lparr>db_next := db_next d + 1\<rparr> else d)"
  have "appended x a d = ((y, True), ?d1)" using assms appended_simps(2) by simp
  moreover have v: "view ?d1 = view d" by (simp add: view_def fun_eq_iff)
  moreover have "decide y ?d1 = decide x d" by (rule decide_core [OF _ v]) (simp add: y_def)
  ultimately show "ops (accept now a x d) = ops d @ [y]"
    "view (accept now a x d) = (view d)(rec_key (dec_record (decide x d)) \<mapsto> dec_record (decide x d))"
    "db_next (accept now a x d) = (if a then db_next d + 1 else db_next d)"
    by (simp_all add: accept_def Let_def)
qed

lemma accept_frame [simp]:
  "db_faults (accept now a x d) = db_faults d" "db_kv (accept now a x d) = db_kv d"
  "db_devices (accept now a x d) = db_devices d"
  by (auto simp: accept_def Let_def split: prod.splits)
    (metis appended_fields appended_faults snd_conv)+

lemma accept_view:
  assumes "keyed d" and "op_id x \<notin> op_id ` set (ops d)"
  shows "view (accept now a x d) = (view d)(op_key x := materialize (view d (op_key x)) x)"
  using accept_new(2) [OF assms(2)] rec_key_decide [OF assms(1), of x] decide_record [of x d] by simp

lemma accept_keyed: "keyed d \<Longrightarrow> keyed (accept now a x d)"
proof (cases "op_id x \<in> op_id ` set (ops d)")
  case False
  assume "keyed d"
  with False show ?thesis
    using accept_new(2) [OF False] rec_key_decide by (auto simp: keyed_view)
qed (simp add: accept_known)

text \<open>A store in which an operation can be accepted without an error.\<close>

definition ready :: "op \<Rightarrow> db \<Rightarrow> bool" where
  "ready x d \<longleftrightarrow> Validate x = None \<and> db_faults d = [] \<and> keyed d"

interpretation acc: event_log ops view "accept now a" ready for now a
  by unfold_locales
    (auto simp: ready_def accept_known accept_new(1) accept_view accept_keyed)

lemma accept_dense: "dense_log d \<Longrightarrow> dense_log (accept now True x d)"
proof (cases "op_id x \<in> op_id ` set (ops d)")
  case False
  assume "dense_log d"
  then show ?thesis using accept_new(1,3) [OF False, of now True] by (simp add: dense_log_def)
qed (simp add: accept_known)

end
