(* ===== verification/ClientHttp.thy ===== *)
theory ClientHttp
  imports GoStd
begin

text \<open>
  The client's HTTP layer, \<open>pkg/client/retry.go\<close> and \<open>pkg/client/http.go\<close>: the back-off
  schedule on 64-bit durations and the loop that repeats a request after transient failures.
\<close>

section \<open>Retry policy\<close>

record retry_policy =
  MaxAttempts :: i64
  BaseDelay :: i64
  MaxDelay :: i64

definition DefaultRetryPolicy :: retry_policy where
  "DefaultRetryPolicy = \<lparr>MaxAttempts = 5, BaseDelay = 100000000, MaxDelay = 2000000000\<rparr>"

definition normalized :: "retry_policy \<Rightarrow> retry_policy" where
  "normalized p0 =
     (let p1 = (if sint (MaxAttempts p0) < 1 then p0\<lparr>MaxAttempts := 1\<rparr> else p0);
          p2 = (if sint (BaseDelay p1) \<le> 0
                then p1\<lparr>BaseDelay := BaseDelay DefaultRetryPolicy\<rparr> else p1)
      in (if sint (MaxDelay p2) \<le> 0
          then p2\<lparr>MaxDelay := MaxDelay DefaultRetryPolicy\<rparr> else p2))"

text \<open>\<open>for i := 0; i < attempt && d < maxD; i++ { d *= 2 }\<close>, which wraps at 64 bits.\<close>

fun double_loop :: "nat \<Rightarrow> i64 \<Rightarrow> i64 \<Rightarrow> i64" where
  "double_loop 0 maxD d = d"
| "double_loop (Suc n) maxD d = (if sint d < sint maxD then double_loop n maxD (d * 2) else d)"

text \<open>
  \<open>backoff\<close> up to the draw: the argument of \<open>rand.Int63n\<close>, which panics unless it is
  positive.
\<close>

definition draw_bound :: "retry_policy \<Rightarrow> nat \<Rightarrow> i64" where
  "draw_bound p attempt =
     (let maxD = MaxDelay p;
          d = double_loop attempt maxD (BaseDelay p);
          d' = (if sint d > sint maxD then maxD else d)
      in d' + 1)"

definition backoff :: "(i64 \<Rightarrow> 'w \<Rightarrow> i64 \<times> 'w) \<Rightarrow> retry_policy \<Rightarrow> nat \<Rightarrow> 'w \<Rightarrow> i64 option \<times> 'w" where
  "backoff int63n p attempt w =
     (let n = draw_bound p attempt
      in if sint n \<le> 0 then (None, w)
         else (case int63n n w of (x, w') \<Rightarrow> (Some x, w')))"

section \<open>One request\<close>

text \<open>
  A request as \<open>attemptJSON\<close> builds it; \<open>'m\<close> is the type of bodies.
\<close>

record 'm http_request =
  hq_method :: string
  hq_url :: string
  hq_auth :: "string option"
  hq_body :: "'m option"

record 'm http_response =
  hr_status :: int
  hr_body :: 'm

text \<open>
  What the client uses of \<open>net/http\<close>, \<open>encoding/json\<close>, \<open>math/rand\<close> and timers, over the
  state \<open>'w\<close> of the rest of the world: building a request (which fails on a malformed URL),
  the round trip (an error or a response), the decoding of an error body's message, a wait
  (\<open>Some m\<close> if the context is done first, with its error) and a draw below a bound.
\<close>

record ('m, 'w) net =
  net_build :: "'m http_request \<Rightarrow> string option"
  net_do :: "'m http_request \<Rightarrow> 'w \<Rightarrow> (string + 'm http_response) \<times> 'w"
  net_error :: "'m \<Rightarrow> string"
  net_wait :: "i64 \<Rightarrow> 'w \<Rightarrow> string option \<times> 'w"
  net_rand :: "i64 \<Rightarrow> 'w \<Rightarrow> i64 \<times> 'w"

definition build_request :: "string \<Rightarrow> string \<Rightarrow> string \<Rightarrow> string \<Rightarrow> 'm option \<Rightarrow> 'm http_request" where
  "build_request base method path token body =
     \<lparr>hq_method = method, hq_url = base @ path,
      hq_auth = (if token \<noteq> [] then Some (''Bearer '' @ token) else None), hq_body = body\<rparr>"

definition attemptJSON :: "('m, 'w) net \<Rightarrow> string \<Rightarrow> string \<Rightarrow> string \<Rightarrow> string \<Rightarrow> 'm option
    \<Rightarrow> ('m \<Rightarrow> string + 'a) \<Rightarrow> 'w \<Rightarrow> 'a result \<times> 'w" where
  "attemptJSON net base method path token body out w =
     (let req = build_request base method path token body
      in case net_build net req of
           Some m \<Rightarrow> (Inl (ErrWrap ''build request'' (ErrLib m)), w)
         | None \<Rightarrow>
             (case net_do net req w of
                (Inl m, w1) \<Rightarrow> (Inl (ErrRetryable (ErrWrap (method @ '' '' @ path) (ErrLib m))), w1)
              | (Inr resp, w1) \<Rightarrow>
                  (if hr_status resp \<ge> 200 \<and> hr_status resp < 300
                   then (case out (hr_body resp) of
                           Inl m \<Rightarrow> (Inl (ErrWrap ''decode response'' (ErrLib m)), w1)
                         | Inr x \<Rightarrow> (Inr x, w1))
                   else
                     (let wrapped = ErrNew (method @ '' '' @ path @ '': '' @ format_int (hr_status resp)
                                            @ '' '' @ net_error net (hr_body resp))
                      in if hr_status resp \<ge> 500 then (Inl (ErrRetryable wrapped), w1)
                         else (Inl wrapped, w1)))))"

section \<open>The attempt loop\<close>

text \<open>A call returns or panics.\<close>

datatype 'a call = Returns 'a | Panics

text \<open>
  \<open>send\<close> is one attempt; \<open>k\<close> attempts are left and \<open>attempt\<close> have been made, the last with
  \<open>lastErr\<close>. A nil \<open>lastErr\<close> cannot be reached, since at least one attempt is made.
\<close>

fun attempt_loop :: "('m, 'w) net \<Rightarrow> retry_policy \<Rightarrow> ('w \<Rightarrow> 'a result \<times> 'w) \<Rightarrow> nat \<Rightarrow> nat
    \<Rightarrow> go_error option \<Rightarrow> 'w \<Rightarrow> 'a result call \<times> 'w" where
  "attempt_loop net p send 0 attempt lastErr w =
     (let msg = ''giving up after '' @ format_int (sint (MaxAttempts p)) @ '' attempts''
      in case lastErr of
           Some e \<Rightarrow> (Returns (Inl (ErrWrap msg e)), w)
         | None \<Rightarrow> (Returns (Inl (ErrNew msg)), w))"
| "attempt_loop net p send (Suc k) attempt lastErr w =
     (case (if attempt > 0
            then (case backoff (net_rand net) p (attempt - 1) w of
                    (None, w1) \<Rightarrow> (Some Panics, w1)
                  | (Some delay, w1) \<Rightarrow>
                      (case net_wait net delay w1 of
                         (Some m, w2) \<Rightarrow> (Some (Returns (Inl (ErrLib m))), w2)
                       | (None, w2) \<Rightarrow> (None, w2)))
            else (None, w)) of
        (Some stop, w2) \<Rightarrow> (stop, w2)
      | (None, w2) \<Rightarrow>
          (case send w2 of
             (Inr x, w3) \<Rightarrow> (Returns (Inr x), w3)
           | (Inl e, w3) \<Rightarrow>
               (if is_retryable e then attempt_loop net p send k (attempt + 1) (Some e) w3
                else (Returns (Inl e), w3))))"

text \<open>The body, if there is one, is given as what \<open>json.Marshal\<close> makes of it.\<close>

definition doJSON :: "('m, 'w) net \<Rightarrow> string \<Rightarrow> retry_policy \<Rightarrow> string \<Rightarrow> string \<Rightarrow> string
    \<Rightarrow> (string + 'm) option \<Rightarrow> ('m \<Rightarrow> string + 'a) \<Rightarrow> 'w \<Rightarrow> 'a result call \<times> 'w" where
  "doJSON net base pol method path token body out w =
     (case (case body of
              None \<Rightarrow> Inr None
            | Some (Inl m) \<Rightarrow> Inl m
            | Some (Inr b) \<Rightarrow> Inr (Some b)) of
        Inl m \<Rightarrow> (Returns (Inl (ErrWrap ''marshal request'' (ErrLib m))), w)
      | Inr bodyBytes \<Rightarrow>
          (let policy = normalized pol
           in attempt_loop net policy (attemptJSON net base method path token bodyBytes out)
                (nat (sint (MaxAttempts policy))) 0 None w))"

section \<open>Delays\<close>

lemma normalized_simps:
  "MaxAttempts (normalized p) = (if sint (MaxAttempts p) < 1 then 1 else MaxAttempts p)"
  "BaseDelay (normalized p) = (if sint (BaseDelay p) \<le> 0 then 100000000 else BaseDelay p)"
  "MaxDelay (normalized p) = (if sint (MaxDelay p) \<le> 0 then 2000000000 else MaxDelay p)"
  by (simp_all add: normalized_def DefaultRetryPolicy_def Let_def)

lemma normalized_positive:
  "1 \<le> sint (MaxAttempts (normalized p))" "0 < sint (BaseDelay (normalized p))"
  "0 < sint (MaxDelay (normalized p))"
  by (simp_all add: normalized_simps)

lemma sint_double: "- (2 ^ 62) \<le> sint d \<Longrightarrow> sint d < 2 ^ 62 \<Longrightarrow> sint (d * 2 :: i64) = 2 * sint d"
proof -
  assume a: "- (2 ^ 62) \<le> sint d" "sint d < 2 ^ 62"
  have "d * 2 = d + d" by simp
  also have "sint (d + d) = signed_take_bit 63 (sint d + sint d)"
    unfolding sint_word_ariths(1) by simp
  also have "\<dots> = 2 * sint d"
    using a by (simp add: signed_take_bit_int_eq_self_iff)
  finally show ?thesis .
qed

lemma double_loop_min:
  "0 < sint d \<Longrightarrow> sint maxD \<le> 2 ^ 62 \<Longrightarrow>
   0 < sint (double_loop n maxD d)
   \<and> min (sint (double_loop n maxD d)) (sint maxD) = min (sint d * 2 ^ n) (sint maxD)"
proof (induction n arbitrary: d)
  case 0
  then show ?case by simp
next
  case (Suc n)
  show ?case
  proof (cases "sint d < sint maxD")
    case True
    with Suc.prems have "sint (d * 2) = 2 * sint d" by (intro sint_double) simp_all
    with Suc True show ?thesis by (simp add: mult.assoc mult.left_commute)
  next
    case False
    moreover have "sint d * 1 \<le> sint d * 2 ^ Suc n"
      by (rule mult_left_mono) (use Suc.prems one_le_power [of "2 :: int" "Suc n"] in simp_all)
    ultimately have "sint maxD \<le> sint d" "sint maxD \<le> sint d * 2 ^ Suc n" by linarith+
    with False Suc.prems show ?thesis by (simp add: min_absorb2)
  qed
qed

lemma draw_bound_min:
  assumes "0 < sint (BaseDelay p)" and "0 < sint (MaxDelay p)" and "sint (MaxDelay p) \<le> 2 ^ 62"
  shows "sint (draw_bound p n) = min (sint (BaseDelay p) * 2 ^ n) (sint (MaxDelay p)) + 1"
proof -
  let ?d = "double_loop n (MaxDelay p) (BaseDelay p)"
  let ?e = "if sint ?d > sint (MaxDelay p) then MaxDelay p else ?d"
  have m: "sint ?e = min (sint ?d) (sint (MaxDelay p))" by auto
  then have "0 < sint ?e" "sint ?e \<le> 2 ^ 62"
    using double_loop_min [OF assms(1,3), of n] assms(2,3) by auto
  then have "sint (?e + 1) = sint ?e + 1"
    by (simp add: sint_word_ariths(1) signed_take_bit_int_eq_self_iff)
  then show ?thesis
    using m double_loop_min [OF assms(1,3), of n] by (simp add: draw_bound_def Let_def)
qed

lemma backoff_draws:
  assumes "0 < sint (BaseDelay p)" and "0 < sint (MaxDelay p)" and "sint (MaxDelay p) \<le> 2 ^ 62"
  shows "backoff int63n p attempt w = (Some (fst (int63n (draw_bound p attempt) w)),
      snd (int63n (draw_bound p attempt) w))"
proof -
  have "0 < sint (BaseDelay p) * 2 ^ attempt" using assms(1) by simp
  with assms(2) have "0 < min (sint (BaseDelay p) * 2 ^ attempt) (sint (MaxDelay p))" by simp
  then have "0 < sint (draw_bound p attempt)"
    unfolding draw_bound_min [OF assms] by linarith
  then show ?thesis by (simp add: backoff_def Let_def split: prod.split)
qed

text \<open>C36: With positive delays and a cap of at most 2 to the 62 nanoseconds (146 years), \<open>backoff\<close>
  never panics, and draws its delay below \<open>min (base * 2 ^ attempt) max + 1\<close>: the doubling
  loop computes the exponential without wrapping.\<close>

theorem backoff_bounds:
  assumes "0 < sint (BaseDelay p)" and "0 < sint (MaxDelay p)" and "sint (MaxDelay p) \<le> 2 ^ 62"
  shows "backoff int63n p attempt w = (Some (fst (int63n (draw_bound p attempt) w)),
      snd (int63n (draw_bound p attempt) w))
    \<and> sint (draw_bound p attempt) = min (sint (BaseDelay p) * 2 ^ attempt) (sint (MaxDelay p)) + 1"
  using backoff_draws [OF assms] draw_bound_min [OF assms] by simp

theorem backoff_bounds_witness:
  "backoff (\<lambda>n w. (n - 1, w)) DefaultRetryPolicy 3 () = (Some 800000000, ())
   \<and> backoff (\<lambda>n w. (n - 1, w)) DefaultRetryPolicy 9 () = (Some 2000000000, ())"
proof -
  have d: "0 < sint (BaseDelay DefaultRetryPolicy)" "0 < sint (MaxDelay DefaultRetryPolicy)"
    "sint (MaxDelay DefaultRetryPolicy) \<le> 2 ^ 62"
    by (simp_all add: DefaultRetryPolicy_def)
  show ?thesis
    using backoff_bounds [OF d, of "\<lambda>n w. (n - 1, w)" 3 "()"]
      backoff_bounds [OF d, of "\<lambda>n w. (n - 1, w)" 9 "()"]
    by (simp add: draw_bound_def DefaultRetryPolicy_def eval_nat_numeral)
qed


section \<open>Which attempts are repeated\<close>

definition transient :: "'a result \<Rightarrow> bool" where
  "transient r = (case r of Inl e \<Rightarrow> is_retryable e | Inr x \<Rightarrow> False)"

text \<open>An attempt is repeated exactly when the request could be built and the round trip failed or
  was answered with a status of 500 or more; it succeeds with a value exactly when it was answered
  2xx with a body that decodes to the value.\<close>

theorem attemptJSON_classifies:
  "let req = build_request base method path token body;
       (r, w') = attemptJSON net base method path token body out w
   in transient r = (net_build net req = None
        \<and> (case fst (net_do net req w) of Inl m \<Rightarrow> True | Inr resp \<Rightarrow> hr_status resp \<ge> 500))
    \<and> (r = Inr x) = (net_build net req = None
        \<and> (case fst (net_do net req w) of
             Inl m \<Rightarrow> False
           | Inr resp \<Rightarrow> 200 \<le> hr_status resp \<and> hr_status resp < 300 \<and> out (hr_body resp) = Inr x))"
  by (auto simp: attemptJSON_def transient_def Let_def split: option.splits sum.splits prod.splits)

text \<open>
  The states in which the attempts are made when every attempt but the last is followed by
  another, and the context is never done.
\<close>

definition pause :: "('m, 'w) net \<Rightarrow> retry_policy \<Rightarrow> nat \<Rightarrow> 'w \<Rightarrow> 'w" where
  "pause net p i w = (case net_rand net (draw_bound p i) w of (d, w1) \<Rightarrow> snd (net_wait net d w1))"

primrec attempt_state :: "('m, 'w) net \<Rightarrow> retry_policy \<Rightarrow> ('w \<Rightarrow> 'a result \<times> 'w) \<Rightarrow> 'w \<Rightarrow> nat \<Rightarrow> 'w" where
  "attempt_state net p send w 0 = w"
| "attempt_state net p send w (Suc i) = pause net p i (snd (send (attempt_state net p send w i)))"

definition patient :: "('m, 'w) net \<Rightarrow> retry_policy \<Rightarrow> bool" where
  "patient net p \<longleftrightarrow> (\<forall>d w. fst (net_wait net d w) = None) \<and> sint (MaxDelay p) \<le> 2 ^ 62"

definition gave_up :: "retry_policy \<Rightarrow> 'a result \<Rightarrow> 'a result" where
  "gave_up p r = (case r of
     Inl e \<Rightarrow> Inl (ErrWrap (''giving up after '' @ format_int (sint (MaxAttempts p)) @ '' attempts'') e)
   | Inr x \<Rightarrow> Inr x)"

lemma patient_normalized: "patient net p \<Longrightarrow> patient net (normalized p)"
  by (simp add: patient_def normalized_simps)

lemma patient_pause:
  assumes "patient net (normalized p)"
  shows "\<exists>d w1. backoff (net_rand net) (normalized p) i w = (Some d, w1)
    \<and> net_wait net d w1 = (None, pause net (normalized p) i w)"
proof -
  let ?r = "net_rand net (draw_bound (normalized p) i) w"
  have "backoff (net_rand net) (normalized p) i w = (Some (fst ?r), snd ?r)"
    by (rule backoff_draws) (use assms normalized_positive in \<open>simp_all add: patient_def\<close>)
  moreover have "net_wait net (fst ?r) (snd ?r) = (None, pause net (normalized p) i w)"
    using assms by (simp add: patient_def pause_def prod_eq_iff split: prod.split)
  ultimately show ?thesis by blast
qed

lemma attempt_loop_find:
  fixes send :: "'w \<Rightarrow> 'a result \<times> 'w"
  assumes st: "\<And>i. st (Suc i) = pause net (normalized p) i (snd (send (st i)))"
    and patient: "patient net (normalized p)"
    and "if a = 0 then w0 = st 0 else pause net (normalized p) (a - 1) w0 = st a"
  shows "attempt_loop net (normalized p) send (Suc k) a lastErr w0 =
    (case find (\<lambda>i. \<not> transient (fst (send (st i)))) [a..<a + Suc k] of
       Some i \<Rightarrow> (Returns (fst (send (st i))), snd (send (st i)))
     | None \<Rightarrow> (Returns (gave_up (normalized p) (fst (send (st (a + k))))), snd (send (st (a + k)))))"
  using assms(3)
proof (induction k arbitrary: a w0 lastErr)
  case (0 a w0 lastErr)
  obtain r w3 where s: "send (st a) = (r, w3)" by fastforce
  show ?case
    using 0 s patient_pause [OF patient, of "a - 1" w0]
    by (cases a; cases r) (auto simp: transient_def gave_up_def)
next
  case (Suc k a w0 lastErr)
  obtain r w3 where s: "send (st a) = (r, w3)" by fastforce
  have up: "[a..<a + Suc (Suc k)] = a # [Suc a..<Suc a + Suc k]" by (simp add: upt_conv_Cons)
  have step: "attempt_loop net (normalized p) send (Suc (Suc k)) a lastErr w0 =
    (case r of Inr x \<Rightarrow> (Returns (Inr x), w3)
     | Inl e \<Rightarrow> if is_retryable e
         then attempt_loop net (normalized p) send (Suc k) (Suc a) (Some e) w3
         else (Returns (Inl e), w3))"
    using Suc.prems s patient_pause [OF patient, of "a - 1" w0]
    by (cases a) (auto simp del: attempt_loop.simps(2)
        simp: attempt_loop.simps(2) [of _ _ _ "Suc k"] split: sum.splits)
  show ?case
  proof (cases "transient r")
    case True
    then obtain e where r: "r = Inl e" "is_retryable e" by (auto simp: transient_def split: sum.splits)
    with step have "attempt_loop net (normalized p) send (Suc (Suc k)) a lastErr w0 =
      attempt_loop net (normalized p) send (Suc k) (Suc a) (Some e) w3"
      by (simp del: attempt_loop.simps)
    also have "\<dots> = (case find (\<lambda>i. \<not> transient (fst (send (st i)))) [Suc a..<Suc a + Suc k] of
        Some i \<Rightarrow> (Returns (fst (send (st i))), snd (send (st i)))
      | None \<Rightarrow> (Returns (gave_up (normalized p) (fst (send (st (Suc a + k))))), snd (send (st (Suc a + k)))))"
      by (rule Suc.IH) (simp add: st s)
    also have "find (\<lambda>i. \<not> transient (fst (send (st i)))) [Suc a..<Suc a + Suc k] =
        find (\<lambda>i. \<not> transient (fst (send (st i)))) [a..<a + Suc (Suc k)]"
      using True s by (simp only: up) (simp del: upt_Suc)
    finally show ?thesis by (simp only: add_Suc add_Suc_right)
  next
    case False
    with step have "attempt_loop net (normalized p) send (Suc (Suc k)) a lastErr w0 = (Returns r, w3)"
      by (cases r) (simp_all add: transient_def del: attempt_loop.simps)
    moreover have "find (\<lambda>i. \<not> transient (fst (send (st i)))) [a..<a + Suc (Suc k)] = Some a"
      using False s by (simp only: up) simp
    ultimately show ?thesis using s by (simp del: attempt_loop.simps)
  qed
qed

text \<open>C35: When the context is not cancelled and the cap keeps the delays from overflowing,
  \<open>doJSON\<close> makes attempts until one is not transient, at most \<open>MaxAttempts\<close> (at least one), and
  returns that one's value or error as it is; if all were transient it wraps the last error.\<close>

theorem doJSON_attempts:
  assumes "patient net p"
  shows "let send = attemptJSON net base method path token body out;
             n = nat (sint (MaxAttempts (normalized p)));
             st = attempt_state net (normalized p) send w
    in doJSON net base p method path token (map_option Inr body) out w =
      (case find (\<lambda>i. \<not> transient (fst (send (st i)))) [0..<n] of
         Some i \<Rightarrow> (Returns (fst (send (st i))), snd (send (st i)))
       | None \<Rightarrow> (Returns (gave_up (normalized p) (fst (send (st (n - 1))))), snd (send (st (n - 1)))))"
proof -
  let ?n = "nat (sint (MaxAttempts (normalized p)))"
  obtain k where k: "?n = Suc k"
    using normalized_positive(1) [of p] by (cases ?n) auto
  let ?send = "attemptJSON net base method path token body out"
  have "doJSON net base p method path token (map_option Inr body) out w =
      attempt_loop net (normalized p) ?send (Suc k) 0 None w"
    by (cases body) (simp_all add: doJSON_def Let_def k del: attempt_loop.simps)
  also have "\<dots> =
    (case find (\<lambda>i. \<not> transient (fst (?send (attempt_state net (normalized p) ?send w i)))) [0..<0 + Suc k] of
       Some i \<Rightarrow> (Returns (fst (?send (attempt_state net (normalized p) ?send w i))),
         snd (?send (attempt_state net (normalized p) ?send w i)))
     | None \<Rightarrow> (Returns (gave_up (normalized p) (fst (?send (attempt_state net (normalized p) ?send w (0 + k))))),
         snd (?send (attempt_state net (normalized p) ?send w (0 + k)))))"
    by (rule attempt_loop_find) (simp_all add: patient_normalized [OF assms])
  finally show ?thesis by (simp only: Let_def k add_0 diff_Suc_1)
qed

text \<open>A network that answers from a script, for examples.\<close>

definition script_net :: "(string, (string + string http_response) list) net" where
  "script_net = \<lparr>net_build = (\<lambda>r. None),
     net_do = (\<lambda>r w. case w of [] \<Rightarrow> (Inl ''EOF'', []) | x # xs \<Rightarrow> (x, xs)),
     net_error = (\<lambda>m. m), net_wait = (\<lambda>d w. (None, w)), net_rand = (\<lambda>n w. (n - 1, w))\<rparr>"

theorem doJSON_attempts_witness:
  "doJSON script_net ''http://s'' DefaultRetryPolicy ''GET'' ''/x'' [] (map_option Inr None) Inr
     [Inl ''refused'', Inr \<lparr>hr_status = 503, hr_body = ''busy''\<rparr>,
      Inr \<lparr>hr_status = 200, hr_body = ''ok''\<rparr>, Inl ''unused'']
   = (Returns (Inr ''ok''), [Inl ''unused''])"
proof -
  have "patient script_net DefaultRetryPolicy"
    by (simp add: patient_def script_net_def DefaultRetryPolicy_def)
  note run = doJSON_attempts [OF this, of "''http://s''" "''GET''" "''/x''" "[]" None Inr
    "[Inl ''refused'', Inr \<lparr>hr_status = 503, hr_body = ''busy''\<rparr>,
      Inr \<lparr>hr_status = 200, hr_body = ''ok''\<rparr>, Inl ''unused'']"]
  have n: "[0..<nat (sint (MaxAttempts (normalized DefaultRetryPolicy)))] = [0, 1, 2, 3, 4]"
    by (simp add: normalized_simps DefaultRetryPolicy_def upt_rec)
  show ?thesis
    unfolding run [unfolded Let_def n]
    by (simp add: attemptJSON_def build_request_def script_net_def pause_def transient_def
        eval_nat_numeral)
qed

end
