(* ===== verification/SyncClient.thy ===== *)
theory SyncClient
  imports Acceptance WireApi ClientHttp
begin

text \<open>
  The client SDK, \<open>pkg/client/client.go\<close> and \<open>pkg/client/sync.go\<close>: one device's store, its local
  reads and writes, and the push and pull of a sync, over any network \<open>net\<close>.
\<close>

section \<open>State\<close>

definition kvDeviceID :: string where "kvDeviceID = ''device_id''"
definition kvDeviceToken :: string where "kvDeviceToken = ''device_token''"
definition kvLastCheckpoint :: string where "kvLastCheckpoint = ''last_checkpoint''"

text \<open>\<open>httpClient\<close> is the argument \<open>net\<close> of the operations that use it.\<close>

record client =
  c_db :: db
  c_device :: string
  c_clock :: clock
  c_base :: string
  c_policy :: retry_policy

record sdk_record =
  sr_collection :: string
  sr_record :: string
  sr_value :: "string option"

record sync_result =
  res_pushed :: nat
  res_pulled :: nat
  res_conflicts :: "conflict_info list"

text \<open>What the client uses of \<open>encoding/json\<close>: the text of a request and the value of a reply.\<close>

record 'm codec =
  enc_register :: "register_request \<Rightarrow> string + 'm"
  enc_push :: "wire_op list \<Rightarrow> string + 'm"
  dec_register :: "'m \<Rightarrow> string + register_response"
  dec_push :: "'m \<Rightarrow> string + push_response"
  dec_pull :: "'m \<Rightarrow> string + pull_response"

definition with_db :: "('a result \<times> db) \<Rightarrow> client \<Rightarrow> 'a result \<times> client" where
  "with_db r c = (fst r, c\<lparr>c_db := snd r\<rparr>)"

section \<open>Opening\<close>

text \<open>
  \<open>Open\<close> on the file's database, with the id \<open>uuid.NewString\<close> would return; each option is a
  change of the client. The database stays behind in the file when opening fails.
\<close>

definition WithRetryPolicy :: "retry_policy \<Rightarrow> client \<Rightarrow> client" where
  "WithRetryPolicy p c = c\<lparr>c_policy := p\<rparr>"

definition OpenClient :: "db option \<Rightarrow> string \<Rightarrow> string \<Rightarrow> (client \<Rightarrow> client) list \<Rightarrow> client result \<times> db" where
  "OpenClient file uuid serverURL opts =
     (case Open file of
        (Inl e, d) \<Rightarrow> (Inl (ErrWrap ''client: open local store'' e), d)
      | (Inr d, _) \<Rightarrow>
          (case GetKV kvDeviceID d of
             (Inl e, d1) \<Rightarrow> (Inl (ErrWrap ''client: read device id'' e), d1)
           | (Inr (stored, found), d1) \<Rightarrow>
               (case (if found then (Inr stored, d1)
                      else case SetKV kvDeviceID uuid d1 of
                             (Inl e, d2) \<Rightarrow> (Inl (ErrWrap ''client: persist device id'' e), d2)
                           | (Inr _, d2) \<Rightarrow> (Inr uuid, d2)) of
                  (Inl e, d2) \<Rightarrow> (Inl e, d2)
                | (Inr deviceID, d2) \<Rightarrow>
                    (let c = \<lparr>c_db = d2, c_device = deviceID, c_clock = NewClock deviceID,
                              c_base = serverURL, c_policy = DefaultRetryPolicy\<rparr>
                     in (Inr (foldl (\<lambda>c opt. opt c) c opts), d2)))))"

definition DeviceID :: "client \<Rightarrow> string" where
  "DeviceID c = c_device c"

section \<open>Local reads and writes\<close>

definition Get :: "string \<Rightarrow> string \<Rightarrow> client \<Rightarrow> (sdk_record \<times> bool) result \<times> client" where
  "Get collection recordID c =
     (case with_db (GetRecord collection recordID (c_db c)) c of
        (Inl e, c1) \<Rightarrow> (Inl e, c1)
      | (Inr (stored, exists), c1) \<Rightarrow>
          (if \<not> exists \<or> rec_deleted stored
           then (Inr (\<lparr>sr_collection = [], sr_record = [], sr_value = None\<rparr>, False), c1)
           else (Inr (\<lparr>sr_collection = rec_collection stored, sr_record = rec_id stored,
                       sr_value = rec_payload stored\<rparr>, True), c1)))"

definition List :: "string \<Rightarrow> client \<Rightarrow> sdk_record list result \<times> client" where
  "List collection c =
     (case with_db (ListRecords collection (c_db c)) c of
        (Inl e, c1) \<Rightarrow> (Inl e, c1)
      | (Inr stored, c1) \<Rightarrow>
          (Inr (map (\<lambda>r. \<lparr>sr_collection = rec_collection r, sr_record = rec_id r,
                          sr_value = rec_payload r\<rparr>)
                  (filter (\<lambda>r. \<not> rec_deleted r) stored)), c1))"

definition PendingChanges :: "client \<Rightarrow> nat result \<times> client" where
  "PendingChanges c =
     (case with_db (UnpushedOps (c_device c) (c_db c)) c of
        (Inl e, c1) \<Rightarrow> (Inl e, c1)
      | (Inr found, c1) \<Rightarrow> (Inr (length found), c1))"

text \<open>The operation of a local write, with the id \<open>uuid\<close> and the wall-clock reading \<open>phys\<close>.\<close>

definition local_op :: "string \<Rightarrow> timestamp \<Rightarrow> string \<Rightarrow> string \<Rightarrow> string \<Rightarrow> string option \<Rightarrow> bool
    \<Rightarrow> record_state \<Rightarrow> bool \<Rightarrow> op" where
  "local_op uuid ts device collection recordID payload del existing found =
     \<lparr>op_id = uuid, op_device = device, op_collection = collection, op_record = recordID,
      op_type = (if del then Delete else if \<not> found \<or> rec_deleted existing then Create else Update),
      op_payload = payload, op_vv = Increment (rec_vv existing) device, op_hlc = ts, op_seq = 0\<rparr>"

definition applyLocalWrite :: "string \<Rightarrow> int \<Rightarrow> string \<Rightarrow> string \<Rightarrow> string option \<Rightarrow> bool \<Rightarrow> client
    \<Rightarrow> sdk_record result \<times> client" where
  "applyLocalWrite uuid phys collection recordID payload del c =
     (case with_db (GetRecord collection recordID (c_db c)) c of
        (Inl e, c1) \<Rightarrow> (Inl e, c1)
      | (Inr (existing, found), c1) \<Rightarrow>
          (case Now phys (c_clock c1) of
             (ts, clk) \<Rightarrow>
               (let c2 = c1\<lparr>c_clock := clk\<rparr>;
                    x = local_op uuid ts (c_device c) collection recordID payload del existing found
                in case with_db (AppendOp x False (c_db c2)) c2 of
                     (Inl e, c3) \<Rightarrow> (Inl e, c3)
                   | (Inr (stored, _), c3) \<Rightarrow>
                       (let decision = Resolve existing found stored
                        in case with_db (PutRecord (dec_record decision) (c_db c3)) c3 of
                             (Inl e, c4) \<Rightarrow> (Inl e, c4)
                           | (Inr _, c4) \<Rightarrow>
                               (Inr \<lparr>sr_collection = collection, sr_record = recordID,
                                     sr_value = rec_payload (dec_record decision)\<rparr>, c4)))))"

text \<open>\<open>Put\<close> is given what \<open>json.Marshal\<close> makes of the value.\<close>

definition Put :: "string \<Rightarrow> int \<Rightarrow> string \<Rightarrow> string \<Rightarrow> string + string \<Rightarrow> client \<Rightarrow> unit result \<times> client" where
  "Put uuid phys collection recordID marshalled c =
     (case marshalled of
        Inl m \<Rightarrow> (Inl (ErrWrap ''client: marshal value'' (ErrLib m)), c)
      | Inr payload \<Rightarrow>
          (case applyLocalWrite uuid phys collection recordID (Some payload) False c of
             (Inl e, c1) \<Rightarrow> (Inl e, c1)
           | (Inr _, c1) \<Rightarrow> (Inr (), c1)))"

definition DeleteRecord :: "string \<Rightarrow> int \<Rightarrow> string \<Rightarrow> string \<Rightarrow> client \<Rightarrow> unit result \<times> client" where
  "DeleteRecord uuid phys collection recordID c =
     (case applyLocalWrite uuid phys collection recordID None True c of
        (Inl e, c1) \<Rightarrow> (Inl e, c1)
      | (Inr _, c1) \<Rightarrow> (Inr (), c1))"

section \<open>Registration\<close>

definition requireToken :: "client \<Rightarrow> string result \<times> client" where
  "requireToken c =
     (case with_db (GetKV kvDeviceToken (c_db c)) c of
        (Inl e, c1) \<Rightarrow> (Inl e, c1)
      | (Inr (token, found), c1) \<Rightarrow>
          (if \<not> found
           then (Inl (ErrNew ''client: device is not registered with a server; call Register first''), c1)
           else (Inr token, c1)))"

definition Register :: "('m, 'w) net \<Rightarrow> 'm codec \<Rightarrow> string \<Rightarrow> client \<Rightarrow> 'w \<Rightarrow> unit result call \<times> client \<times> 'w" where
  "Register net cod deviceName c w =
     (let req = \<lparr>rq_device = c_device c, rq_name = deviceName\<rparr>
      in case doJSON net (c_base c) (c_policy c) ''POST'' ''/v1/devices/register'' []
                (Some (enc_register cod req)) (dec_register cod) w of
           (Panics, w1) \<Rightarrow> (Panics, c, w1)
         | (Returns (Inl e), w1) \<Rightarrow> (Returns (Inl (ErrWrap ''client: register device'' e)), c, w1)
         | (Returns (Inr resp), w1) \<Rightarrow>
             (case with_db (SetKV kvDeviceToken (rs_token resp) (c_db c)) c of
                (r, c1) \<Rightarrow> (Returns r, c1, w1)))"

section \<open>Push\<close>

definition push :: "('m, 'w) net \<Rightarrow> 'm codec \<Rightarrow> string \<Rightarrow> client \<Rightarrow> 'w
    \<Rightarrow> (nat \<times> conflict_info list) result call \<times> client \<times> 'w" where
  "push net cod token c w =
     (case with_db (UnpushedOps (c_device c) (c_db c)) c of
        (Inl e, c1) \<Rightarrow> (Returns (Inl (ErrWrap ''client: read unpushed ops'' e)), c1, w)
      | (Inr unpushed, c1) \<Rightarrow>
          (if unpushed = [] then (Returns (Inr (0, [])), c1, w)
           else case doJSON net (c_base c) (c_policy c) ''POST'' ''/v1/sync/push'' token
                       (Some (enc_push cod (map FromOplog unpushed))) (dec_push cod) w of
                  (Panics, w1) \<Rightarrow> (Panics, c1, w1)
                | (Returns (Inl e), w1) \<Rightarrow> (Returns (Inl (ErrWrap ''client: push'' e)), c1, w1)
                | (Returns (Inr resp), w1) \<Rightarrow>
                    (case with_db (MarkPushed (pr_accepted resp) (c_db c1)) c1 of
                       (Inl e, c2) \<Rightarrow> (Returns (Inl (ErrWrap ''client: mark pushed'' e)), c2, w1)
                     | (Inr _, c2) \<Rightarrow>
                         (Returns (Inr (length (pr_accepted resp), pr_conflicts resp)), c2, w1))))"

section \<open>Pull\<close>

definition pullPageSize :: int where
  "pullPageSize = 100"

definition checkpoint :: "client \<Rightarrow> int result \<times> client" where
  "checkpoint c =
     (case with_db (GetKV kvLastCheckpoint (c_db c)) c of
        (Inl e, c1) \<Rightarrow> (Inl e, c1)
      | (Inr (v, found), c1) \<Rightarrow>
          (if \<not> found then (Inr 0, c1) else (parse_int v, c1)))"

definition setCheckpoint :: "int \<Rightarrow> client \<Rightarrow> unit result \<times> client" where
  "setCheckpoint n c = with_db (SetKV kvLastCheckpoint (format_int n) (c_db c)) c"

text \<open>
  One pulled operation: \<open>phys\<close> and \<open>now\<close> give the clock readings taken while it is handled.
  The counts that the code returns beside an error are not kept: \<open>Sync\<close>, the only caller, drops
  them.
\<close>

type_synonym tally = "nat \<times> conflict_info list"

definition pull_op :: "(op \<Rightarrow> int) \<Rightarrow> (op \<Rightarrow> time) \<Rightarrow> wire_op \<Rightarrow> tally \<Rightarrow> client \<Rightarrow> tally result \<times> client" where
  "pull_op phys now dto tally c =
     (case ToOplog dto of
        Inl e \<Rightarrow> (Inl (ErrWrap ''client: decode pulled op'' e), c)
      | Inr x \<Rightarrow>
          (let c1 = c\<lparr>c_clock := snd (Observe (phys x) (op_hlc x) (c_clock c))\<rparr>
           in case with_db (AppendOp x False (c_db c1)) c1 of
                (Inl e, c2) \<Rightarrow> (Inl (ErrWrap ''client: store pulled op'' e), c2)
              | (Inr (stored, inserted), c2) \<Rightarrow>
                  (if \<not> inserted then (Inr tally, c2)
                   else case with_db (GetRecord (op_collection stored) (op_record stored) (c_db c2)) c2 of
                          (Inl e, c3) \<Rightarrow> (Inl (ErrWrap ''client: load record'' e), c3)
                        | (Inr (existing, found), c3) \<Rightarrow>
                            (let decision = Resolve existing found stored
                             in case with_db (PutRecord (dec_record decision) (c_db c3)) c3 of
                                  (Inl e, c4) \<Rightarrow> (Inl (ErrWrap ''client: save record'' e), c4)
                                | (Inr _, c4) \<Rightarrow>
                                    (if \<not> dec_conflicted decision then (Inr (fst tally + 1, snd tally), c4)
                                     else
                                       (let info = \<lparr>ci_collection = op_collection stored,
                                              ci_record = op_record stored,
                                              ci_winner = dec_winner decision,
                                              ci_loser = dec_loser decision\<rparr>
                                        in case with_db (RecordConflict
                                                \<lparr>con_id = 0, con_collection = ci_collection info,
                                                 con_record = ci_record info,
                                                 con_winner = ci_winner info,
                                                 con_loser = ci_loser info,
                                                 con_seq = op_seq stored,
                                                 con_at = now stored\<rparr> (c_db c4)) c4 of
                                             (Inl e, c5) \<Rightarrow> (Inl (ErrWrap ''client: record conflict'' e), c5)
                                           | (Inr _, c5) \<Rightarrow>
                                               (Inr (fst tally + 1, snd tally @ [info]), c5)))))))"

fun pull_ops :: "(op \<Rightarrow> int) \<Rightarrow> (op \<Rightarrow> time) \<Rightarrow> wire_op list \<Rightarrow> tally \<Rightarrow> client \<Rightarrow> tally result \<times> client" where
  "pull_ops phys now [] tally c = (Inr tally, c)"
| "pull_ops phys now (dto # dtos) tally c =
     (case pull_op phys now dto tally c of
        (Inl e, c1) \<Rightarrow> (Inl e, c1)
      | (Inr tally1, c1) \<Rightarrow> pull_ops phys now dtos tally1 c1)"

definition pull_path :: "int \<Rightarrow> string" where
  "pull_path since = ''/v1/sync/pull?since='' @ format_int since @ ''&limit='' @ format_int pullPageSize"

text \<open>
  The loop over pages runs as long as the server says there are more: \<open>None\<close> when it has not
  ended within \<open>fuel\<close> pages.
\<close>

fun pull_loop :: "nat \<Rightarrow> ('m, 'w) net \<Rightarrow> 'm codec \<Rightarrow> (op \<Rightarrow> int) \<Rightarrow> (op \<Rightarrow> time) \<Rightarrow> string \<Rightarrow> int \<Rightarrow> tally
    \<Rightarrow> client \<Rightarrow> 'w \<Rightarrow> (tally result call \<times> client \<times> 'w) option" where
  "pull_loop 0 net cod phys now token since tally c w = None"
| "pull_loop (Suc fuel) net cod phys now token since tally c w =
     (case doJSON net (c_base c) (c_policy c) ''GET'' (pull_path since) token None (dec_pull cod) w of
        (Panics, w1) \<Rightarrow> Some (Panics, c, w1)
      | (Returns (Inl e), w1) \<Rightarrow> Some (Returns (Inl (ErrWrap ''client: pull'' e)), c, w1)
      | (Returns (Inr resp), w1) \<Rightarrow>
          (case pull_ops phys now (pl_ops resp) tally c of
             (Inl e, c1) \<Rightarrow> Some (Returns (Inl e), c1, w1)
           | (Inr tally1, c1) \<Rightarrow>
               (case setCheckpoint (pl_next resp) c1 of
                  (Inl e, c2) \<Rightarrow> Some (Returns (Inl (ErrWrap ''client: save checkpoint'' e)), c2, w1)
                | (Inr _, c2) \<Rightarrow>
                    (if \<not> pl_more resp then Some (Returns (Inr tally1), c2, w1)
                     else pull_loop fuel net cod phys now token (pl_next resp) tally1 c2 w1))))"

definition pull :: "nat \<Rightarrow> ('m, 'w) net \<Rightarrow> 'm codec \<Rightarrow> (op \<Rightarrow> int) \<Rightarrow> (op \<Rightarrow> time) \<Rightarrow> string
    \<Rightarrow> client \<Rightarrow> 'w \<Rightarrow> (tally result call \<times> client \<times> 'w) option" where
  "pull fuel net cod phys now token c w =
     (case checkpoint c of
        (Inl e, c1) \<Rightarrow> Some (Returns (Inl (ErrWrap ''client: read checkpoint'' e)), c1, w)
      | (Inr since, c1) \<Rightarrow> pull_loop fuel net cod phys now token since (0, []) c1 w)"

section \<open>Sync\<close>

text \<open>\<open>Sync\<close> returns its summary beside the error: a failed pull still reports what was pushed.\<close>

definition Sync :: "nat \<Rightarrow> ('m, 'w) net \<Rightarrow> 'm codec \<Rightarrow> (op \<Rightarrow> int) \<Rightarrow> (op \<Rightarrow> time) \<Rightarrow> client \<Rightarrow> 'w
    \<Rightarrow> ((sync_result \<times> go_error option) call \<times> client \<times> 'w) option" where
  "Sync fuel net cod phys now c w =
     (let zero = \<lparr>res_pushed = 0, res_pulled = 0, res_conflicts = []\<rparr>
      in case requireToken c of
           (Inl e, c1) \<Rightarrow> Some (Returns (zero, Some e), c1, w)
         | (Inr token, c1) \<Rightarrow>
             (case push net cod token c1 w of
                (Panics, c2, w2) \<Rightarrow> Some (Panics, c2, w2)
              | (Returns (Inl e), c2, w2) \<Rightarrow> Some (Returns (zero, Some e), c2, w2)
              | (Returns (Inr (pushed, conflicts)), c2, w2) \<Rightarrow>
                  (let r = \<lparr>res_pushed = pushed, res_pulled = 0, res_conflicts = conflicts\<rparr>
                   in case pull fuel net cod phys now token c2 w2 of
                        None \<Rightarrow> None
                      | Some (Panics, c3, w3) \<Rightarrow> Some (Panics, c3, w3)
                      | Some (Returns (Inl e), c3, w3) \<Rightarrow> Some (Returns (r, Some e), c3, w3)
                      | Some (Returns (Inr (pulled, conflicts')), c3, w3) \<Rightarrow>
                          Some (Returns (r\<lparr>res_pulled := pulled, res_conflicts := conflicts @ conflicts'\<rparr>,
                                         None), c3, w3))))"

end
