(* ===== verification/ClientFacts.thy ===== *)
theory ClientFacts
  imports SyncClient
begin

text \<open>
  What the client keeps and promises: local writes are fast-forwards that are read back at once
  and stay in the outbox, and whatever a network answers, a sync leaves the records the fold of
  the log.
\<close>

section \<open>A sound client\<close>

definition sound_db :: "db \<Rightarrow> bool" where
  "sound_db d \<longleftrightarrow> db_faults d = [] \<and> keyed d \<and> view d = view_of_log (ops d) \<and> distinct (map op_id (ops d))"

definition sound :: "client \<Rightarrow> bool" where
  "sound c \<longleftrightarrow> sound_db (c_db c) \<and> clock_node (c_clock c) = c_device c \<and> c_device c \<noteq> []"

lemma sound_dbD:
  assumes "sound_db d"
  shows "db_faults d = []" "keyed d" "view d = view_of_log (ops d)" "distinct (map op_id (ops d))"
  using assms by (simp_all add: sound_db_def)

lemma soundD:
  assumes "sound c"
  shows "sound_db (c_db c)" "clock_node (c_clock c) = c_device c" "c_device c \<noteq> []"
    "db_faults (c_db c) = []"
  using assms by (simp_all add: sound_def sound_db_def)

lemma ready_sound: "sound_db d \<Longrightarrow> Validate x = None \<Longrightarrow> ready x d"
  by (simp add: ready_def sound_db_def)

lemma accept_sound:
  assumes "sound_db d" and "Validate x = None"
  shows "sound_db (accept now a x d)"
proof -
  note r = ready_sound [OF assms]
  from sound_dbD [OF assms(1)] accept_keyed acc.add_view [OF r] acc.add_distinct [OF r]
  show ?thesis by (simp add: sound_db_def)
qed

lemma accept_prefix: "\<exists>xs. ops (accept now a x d) = ops d @ xs"
  by (cases "op_id x \<in> op_id ` set (ops d)") (auto simp: accept_known accept_new(1))

lemma sound_db_kv [simp]: "sound_db (d\<lparr>db_kv := m\<rparr>) = sound_db d"
  by (simp add: sound_db_def keyed_def view_def fun_eq_iff)

lemma ops_pushed [simp]:
  "ops (d\<lparr>db_oplog := map (\<lambda>r. if p r then r\<lparr>row_pushed := True\<rparr> else r) (db_oplog d)\<rparr>) = ops d"
  by (auto simp: ops_def)

lemma sound_db_pushed [simp]:
  "sound_db (d\<lparr>db_oplog := map (\<lambda>r. if p r then r\<lparr>row_pushed := True\<rparr> else r) (db_oplog d)\<rparr>) = sound_db d"
  unfolding sound_db_def ops_pushed by (simp add: keyed_def view_def fun_eq_iff)

text \<open>What every operation of the client keeps.\<close>

definition keeps :: "client \<Rightarrow> client \<Rightarrow> bool" where
  "keeps c c' \<longleftrightarrow> sound c' \<and> c_device c' = c_device c \<and> (\<exists>xs. ops (c_db c') = ops (c_db c) @ xs)"

lemma keeps_refl: "sound c \<Longrightarrow> keeps c c"
  by (simp add: keeps_def)

lemma keeps_trans: "keeps c c' \<Longrightarrow> keeps c' c'' \<Longrightarrow> keeps c c''"
  by (auto simp: keeps_def)

lemma keeps_sound: "keeps c c' \<Longrightarrow> sound c'"
  by (simp add: keeps_def)

lemma with_db_id [simp]: "db_faults (c_db c) = [] \<Longrightarrow> with_db (query sel (c_db c)) c = (Inr (sel (c_db c)), c)"
  by (simp add: with_db_def store_simps)

section \<open>Pulled operations\<close>

definition pulled_tally :: "op \<Rightarrow> db \<Rightarrow> tally \<Rightarrow> tally" where
  "pulled_tally x d t =
     (if op_id x \<in> op_id ` set (ops d) then t else (fst t + 1, snd t @ conflict_infos x d))"

lemma pull_op_ok:
  assumes f: "db_faults (c_db c) = []" and w: "ToOplog w = Inr x"
  shows "pull_op phys now w t c = (Inr (pulled_tally x (c_db c) t),
    c\<lparr>c_db := accept now False x (c_db c), c_clock := snd (Observe (phys x) (op_hlc x) (c_clock c))\<rparr>)"
proof -
  have v: "Validate x = None" using ToOplog_Inr(1) [OF w] .
  show ?thesis
  proof (cases "op_id x \<in> op_id ` set (ops (c_db c))")
    case True
    with accept_known_steps [OF f v True, of False] w show ?thesis
      by (auto simp: pull_op_def with_db_def pulled_tally_def accept_known)
  next
    case False
    from accept_steps [OF f v False, of False now] w False show ?thesis
      by (elim exE conjE)
        (simp add: pull_op_def with_db_def pulled_tally_def conflict_infos_def conflict_row_def Let_def)
  qed
qed

lemma pull_op_undecodable: "ToOplog w = Inl e \<Longrightarrow>
    pull_op phys now w t c = (Inl (ErrWrap ''client: decode pulled op'' e), c)"
  by (simp add: pull_op_def)

interpretation pulled: event_log "\<lambda>c. ops (c_db c)" "\<lambda>c. view (c_db c)"
  "\<lambda>x c. snd (pull_op phys now (FromOplog x) t c)" "\<lambda>x c. ready x (c_db c)"
  for phys now t
  by unfold_locales
    (auto simp: pull_op_ok [OF _ ToOplog_FromOplog] ready_def accept_known accept_new(1)
      accept_view accept_keyed)

lemma pull_op_keeps:
  assumes "sound c" and "pull_op phys now w t c = (r, c')"
  shows "keeps c c'"
proof (cases "ToOplog w")
  case (Inl e)
  with assms show ?thesis by (auto simp: pull_op_undecodable keeps_refl)
next
  case (Inr x)
  then have "c' = c\<lparr>c_db := accept now False x (c_db c),
      c_clock := snd (Observe (phys x) (op_hlc x) (c_clock c))\<rparr>"
    using assms pull_op_ok [of c w x phys now t] by (simp add: soundD)
  with accept_sound [OF soundD(1) [OF assms(1)] ToOplog_Inr(1) [OF Inr], of now False]
    accept_prefix [of now False x "c_db c"] assms(1)
  show ?thesis by (simp add: keeps_def sound_def)
qed

lemma pull_ops_keeps: "sound c \<Longrightarrow> pull_ops phys now ws t c = (r, c') \<Longrightarrow> keeps c c'"
proof (induction ws arbitrary: t c)
  case Nil
  then show ?case by (simp add: keeps_refl)
next
  case (Cons w ws)
  obtain r1 c1 where 1: "pull_op phys now w t c = (r1, c1)" by fastforce
  note k = pull_op_keeps [OF Cons.prems(1) 1]
  show ?case
  proof (cases r1)
    case (Inl e)
    with Cons.prems(2) 1 k show ?thesis by simp
  next
    case (Inr t1)
    with Cons.prems(2) 1 have "pull_ops phys now ws t1 c1 = (r, c')" by simp
    from keeps_trans [OF k Cons.IH [OF keeps_sound [OF k] this]] show ?thesis .
  qed
qed

lemma setCheckpoint_keeps: "sound c \<Longrightarrow> setCheckpoint n c = (r, c') \<Longrightarrow> keeps c c'"
  by (auto simp: setCheckpoint_def SetKV_def with_db_def keeps_def sound_def sound_dbD(1) store_simps)

lemma pull_loop_keeps:
  "sound c \<Longrightarrow> pull_loop fuel net cod phys now token since t c w = Some (r, c', w') \<Longrightarrow> keeps c c'"
proof (induction fuel arbitrary: since t c w)
  case 0
  then show ?case by simp
next
  case (Suc fuel)
  obtain a w1 where 1: "doJSON net (c_base c) (c_policy c) ''GET'' (pull_path since) token None
      (dec_pull cod) w = (a, w1)" by fastforce
  show ?case
  proof (cases "\<exists>resp. a = Returns (Inr resp)")
    case False
    with Suc.prems 1 show ?thesis
      by (cases a) (auto intro: keeps_refl split: sum.splits)
  next
    case True
    then obtain resp where a: "a = Returns (Inr resp)" by blast
    obtain r2 c2 where 2: "pull_ops phys now (pl_ops resp) t c = (r2, c2)" by fastforce
    obtain r3 c3 where 3: "setCheckpoint (pl_next resp) c2 = (r3, c3)" by fastforce
    note k2 = pull_ops_keeps [OF Suc.prems(1) 2]
    note k3 = keeps_trans [OF k2 setCheckpoint_keeps [OF keeps_sound [OF k2] 3]]
    show ?thesis
      using Suc.prems(2) 1 a 2 3 k2 k3 Suc.IH [OF keeps_sound [OF k3]]
      by (auto split: sum.splits if_splits intro: keeps_trans)
  qed
qed

section \<open>Whatever the network does\<close>

definition outbox :: "string \<Rightarrow> db \<Rightarrow> op list" where
  "outbox dev d = map row_op (filter (\<lambda>r. op_device (row_op r) = dev \<and> \<not> row_pushed r) (db_oplog d))"

lemma UnpushedOps_ok: "db_faults d = [] \<Longrightarrow> UnpushedOps dev d = (Inr (outbox dev d), d)"
  by (simp add: UnpushedOps_def outbox_def store_simps)

lemma marked_keeps: "sound c \<Longrightarrow> keeps c (c\<lparr>c_db := snd (MarkPushed is (c_db c))\<rparr>)"
  by (simp add: MarkPushed_ok soundD(4) keeps_def sound_def)

lemma push_ok:
  assumes "db_faults (c_db c) = []"
  shows "push net cod token c w =
    (if outbox (c_device c) (c_db c) = [] then (Returns (Inr (0, [])), c, w)
     else case doJSON net (c_base c) (c_policy c) ''POST'' ''/v1/sync/push'' token
            (Some (enc_push cod (map FromOplog (outbox (c_device c) (c_db c))))) (dec_push cod) w of
        (Panics, w1) \<Rightarrow> (Panics, c, w1)
      | (Returns (Inl e), w1) \<Rightarrow> (Returns (Inl (ErrWrap ''client: push'' e)), c, w1)
      | (Returns (Inr resp), w1) \<Rightarrow>
          (Returns (Inr (length (pr_accepted resp), pr_conflicts resp)),
           c\<lparr>c_db := snd (MarkPushed (pr_accepted resp) (c_db c))\<rparr>, w1))"
  using assms
  by (auto simp: push_def UnpushedOps_ok with_db_def MarkPushed_ok
      split: prod.splits call.splits sum.splits)

lemma push_keeps: "sound c \<Longrightarrow> push net cod token c w = (r, c', w') \<Longrightarrow> keeps c c'"
  by (auto simp: push_ok soundD(4) keeps_refl marked_keeps
      split: if_splits prod.splits call.splits sum.splits)

lemma pull_keeps:
  assumes "sound c" and "pull fuel net cod phys now token c w = Some (r, c', w')"
  shows "keeps c c'"
proof -
  have "snd (checkpoint c) = c"
    by (simp add: checkpoint_def GetKV_def soundD(4) [OF assms(1)] split: option.split)
  with assms show ?thesis
    by (auto simp: pull_def keeps_refl split: prod.splits sum.splits elim: pull_loop_keeps)
qed

lemma Sync_keeps:
  assumes "sound c" and "Sync fuel net cod phys now c w = Some (r, c', w')"
  shows "keeps c c'"
proof -
  have t: "snd (requireToken c) = c"
    by (simp add: requireToken_def GetKV_def soundD(4) [OF assms(1)] split: option.split)
  show ?thesis
  proof (cases "fst (requireToken c)")
    case (Inl e)
    with t assms show ?thesis
      by (auto simp: Sync_def Let_def keeps_refl split: prod.splits)
  next
    case (Inr token)
    obtain r1 c1 w1 where 1: "push net cod token c w = (r1, c1, w1)" by (metis prod_cases3)
    note k = push_keeps [OF assms(1) 1]
    with t Inr 1 assms(2) show ?thesis
      by (auto simp: Sync_def Let_def split: prod.splits call.splits sum.splits option.splits
          intro: keeps_trans [OF k pull_keeps [OF keeps_sound [OF k]]])
  qed
qed


section \<open>Local writes\<close>

definition stored :: "string \<times> string \<Rightarrow> db \<Rightarrow> record_state \<times> bool" where
  "stored k d = (case view d k of None \<Rightarrow> (zero_record, False) | Some r \<Rightarrow> (r, True))"

text \<open>The operation of a write into the store \<open>d\<close>.\<close>

definition write_op :: "string \<Rightarrow> int \<Rightarrow> string \<Rightarrow> string \<Rightarrow> string option \<Rightarrow> bool \<Rightarrow> client \<Rightarrow> op" where
  "write_op uuid phys collection recordID payload del c =
     local_op uuid (fst (Now phys (c_clock c))) (c_device c) collection recordID payload del
       (fst (stored (collection, recordID) (c_db c))) (snd (stored (collection, recordID) (c_db c)))"

text \<open>The write can be made: its ids are there and new, and the device's counter is not full.\<close>

definition writable :: "string \<Rightarrow> string \<Rightarrow> string \<Rightarrow> string option \<Rightarrow> bool \<Rightarrow> client \<Rightarrow> bool" where
  "writable uuid collection recordID payload del c \<longleftrightarrow>
     uuid \<noteq> [] \<and> collection \<noteq> [] \<and> recordID \<noteq> [] \<and> (del \<or> payload \<noteq> None)
     \<and> uuid \<notin> op_id ` set (ops (c_db c))
     \<and> vget (rec_vv (fst (stored (collection, recordID) (c_db c)))) (c_device c) \<noteq> - 1"

lemma write_op_simps [simp]:
  "op_id (write_op uuid phys collection recordID payload del c) = uuid"
  "op_device (write_op uuid phys collection recordID payload del c) = c_device c"
  "op_key (write_op uuid phys collection recordID payload del c) = (collection, recordID)"
  "op_payload (write_op uuid phys collection recordID payload del c) = payload"
  "op_hlc (write_op uuid phys collection recordID payload del c) = fst (Now phys (c_clock c))"
  "op_vv (write_op uuid phys collection recordID payload del c) =
     Increment (rec_vv (fst (stored (collection, recordID) (c_db c)))) (c_device c)"
  "op_seq (write_op uuid phys collection recordID payload del c) = 0"
  "op_collection (write_op uuid phys collection recordID payload del c) = collection"
  "op_record (write_op uuid phys collection recordID payload del c) = recordID"
  by (simp_all add: write_op_def local_op_def op_key_def)

lemma write_op_delete: "op_type (write_op uuid phys collection recordID payload del c) = Delete \<longleftrightarrow> del"
  by (simp add: write_op_def local_op_def Create_def Update_def Delete_def)

lemma write_op_valid:
  assumes "sound c" and "writable uuid collection recordID payload del c"
  shows "Validate (write_op uuid phys collection recordID payload del c) = None"
  using assms soundD [OF assms(1)]
  by (auto simp: Validate_None_iff writable_def write_op_def local_op_def valid_type_def)

lemma write_op_forward:
  assumes "writable uuid collection recordID payload del c"
  shows "decide (write_op uuid phys collection recordID payload del c) (c_db c) =
    \<lparr>dec_record = fromOp (write_op uuid phys collection recordID payload del c),
     dec_conflicted = False, dec_winner = uuid, dec_loser = []\<rparr>"
proof (cases "view (c_db c) (collection, recordID)")
  case None
  then show ?thesis by (simp add: decide_def Resolve_first)
next
  case (Some r)
  with assms have "vget (rec_vv r) (c_device c) \<noteq> - 1" by (simp add: writable_def stored_def)
  then have "Compare (rec_vv r) (op_vv (write_op uuid phys collection recordID payload del c)) = Ancestor"
    using Some by (simp add: stored_def Compare_Increment)
  with Some show ?thesis by (simp add: decide_def Resolve_forward)
qed

lemma applyLocalWrite_ok:
  assumes "sound c" and w: "writable uuid collection recordID payload del c"
    and x_def: "x = write_op uuid phys collection recordID payload del c"
  shows "applyLocalWrite uuid phys collection recordID payload del c =
    (Inr \<lparr>sr_collection = collection, sr_record = recordID, sr_value = payload\<rparr>,
     c\<lparr>c_db := accept now False x (c_db c), c_clock := snd (Now phys (c_clock c))\<rparr>)"
proof -
  have f: "db_faults (c_db c) = []" using assms(1) by (rule soundD)
  have v: "Validate x = None" unfolding x_def by (rule write_op_valid [OF assms(1) w])
  have new: "op_id x \<notin> op_id ` set (ops (c_db c))" using w by (simp add: x_def writable_def)
  have g: "GetRecord collection recordID (c_db c) = (Inr (stored (collection, recordID) (c_db c)), c_db c)"
    by (simp add: GetRecord_ok f stored_def)
  have x: "local_op uuid (fst (Now phys (c_clock c))) (c_device c) collection recordID payload del e b = x"
    if "stored (collection, recordID) (c_db c) = (e, b)" for e b
    using that by (simp add: x_def write_op_def)
  have key: "op_collection x = collection" "op_record x = recordID" "op_payload x = payload"
    by (simp_all add: x_def)
  define d1 where "d1 = insert_op x (c_db c)"
  have app: "AppendOp x False (c_db c) = (Inr (x, True), d1)"
    using appended_simps(2) [OF new, of False] f v by (simp add: AppendOp_ok d1_def)
  have f1: "db_faults d1 = []" using f by (simp add: d1_def)
  have dec: "Resolve (fst (stored (collection, recordID) (c_db c)))
      (snd (stored (collection, recordID) (c_db c))) x = decide x (c_db c)"
    by (rule decide_found) (simp add: key stored_def)
  note fwd = write_op_forward [OF w, of phys, folded x_def]
  have acc: "accept now False x (c_db c) = store_record (fromOp x) d1"
  proof -
    have v1: "view d1 = view (c_db c)" by (simp add: d1_def view_def fun_eq_iff)
    have "decide x d1 = decide x (c_db c)" by (rule decide_core [OF refl v1])
    then show ?thesis
      using appended_simps(2) [OF new, of False] by (simp add: accept_def d1_def fwd Let_def)
  qed
  obtain e b where eb: "stored (collection, recordID) (c_db c) = (e, b)" by fastforce
  obtain ts clk where now: "Now phys (c_clock c) = (ts, clk)" by fastforce
  show ?thesis
    using dec eb x [OF eb]
    by (simp add: applyLocalWrite_def with_db_def g now app PutRecord_ok f1 fwd acc Let_def key)
qed

lemma accept_oplog:
  assumes "op_id x \<notin> op_id ` set (ops d)"
  shows "db_oplog (accept now False x d) = db_oplog d @ [\<lparr>row_op = x, row_pushed = False\<rparr>]"
  using appended_simps(2) [OF assms, of False]
  by (auto simp: accept_def Let_def insert_op_def split: if_splits)

lemma outbox_accept: "op_id x \<notin> op_id ` set (ops d) \<Longrightarrow>
    outbox dev (accept now False x d) = outbox dev d @ (if op_device x = dev then [x] else [])"
  by (simp add: outbox_def accept_oplog)

lemma Get_ok: "db_faults (c_db c) = [] \<Longrightarrow> Get collection recordID c =
    (Inr (case view (c_db c) (collection, recordID) of
       None \<Rightarrow> (\<lparr>sr_collection = [], sr_record = [], sr_value = None\<rparr>, False)
     | Some r \<Rightarrow> (if rec_deleted r then (\<lparr>sr_collection = [], sr_record = [], sr_value = None\<rparr>, False)
                  else (\<lparr>sr_collection = rec_collection r, sr_record = rec_id r,
                         sr_value = rec_payload r\<rparr>, True))), c)"
  by (simp add: Get_def with_db_def GetRecord_ok split: option.split)

text \<open>C34: A local write takes effect at once: it is read back (or, deleted, not found), the outbox
  gains exactly its operation, and every other record is as it was.\<close>

theorem local_write_visible:
  assumes "sound c" and "writable uuid collection recordID payload del c"
  shows "case applyLocalWrite uuid phys collection recordID payload del c of (r, c') \<Rightarrow>
    r = Inr \<lparr>sr_collection = collection, sr_record = recordID, sr_value = payload\<rparr>
    \<and> Get collection recordID c' = (Inr (if del then (\<lparr>sr_collection = [], sr_record = [], sr_value = None\<rparr>, False)
        else (\<lparr>sr_collection = collection, sr_record = recordID, sr_value = payload\<rparr>, True)), c')
    \<and> fst (PendingChanges c') = map_sum id Suc (fst (PendingChanges c))
    \<and> (\<exists>rec. view (c_db c') = (view (c_db c))((collection, recordID) \<mapsto> rec))"
proof -
  let ?x = "write_op uuid phys collection recordID payload del c"
  let ?d = "accept (\<lambda>_. 0) False ?x (c_db c)"
  have f: "db_faults (c_db c) = []" using assms(1) by (rule soundD)
  have new: "op_id ?x \<notin> op_id ` set (ops (c_db c))" using assms(2) by (simp add: writable_def)
  have k: "keyed (c_db c)" using soundD(1) [OF assms(1)] by (rule sound_dbD)
  have v: "view ?d = (view (c_db c))((collection, recordID) \<mapsto> fromOp ?x)"
    using accept_view [OF k new] write_op_forward [OF assms(2), of phys] decide_record [of ?x "c_db c"]
    by simp
  have "outbox (c_device c) ?d = outbox (c_device c) (c_db c) @ [?x]"
    using outbox_accept [OF new] by simp
  then show ?thesis
    using f v
    by (auto simp: applyLocalWrite_ok [OF assms refl, of phys "\<lambda>_. 0"] Get_ok PendingChanges_def
        with_db_def UnpushedOps_ok write_op_delete)
qed

definition example_client :: client where
  "example_client = \<lparr>c_db = empty_db, c_device = ''device-a'', c_clock = NewClock ''device-a'',
     c_base = ''http://s'', c_policy = DefaultRetryPolicy\<rparr>"

lemma example_sound [simp]: "sound example_client"
  by (simp add: sound_def sound_db_def example_client_def NewClock_def view_of_log_def fun_eq_iff)

lemma example_writable: "writable ''op-1'' ''notes'' ''note-1'' (Some ''1'') False example_client"
  by (simp add: writable_def example_client_def stored_def zero_record_def)

theorem local_write_visible_witness:
  "fst (Get ''notes'' ''note-1'' (snd (applyLocalWrite ''op-1'' 7 ''notes'' ''note-1'' (Some ''1'') False example_client)))
     = Inr (\<lparr>sr_collection = ''notes'', sr_record = ''note-1'', sr_value = Some ''1''\<rparr>, True)"
  using local_write_visible [OF example_sound example_writable, of 7]
  by (simp split: prod.splits)


section \<open>Identity\<close>

lemma GetKV_effect: "GetKV k d = (r, d') \<Longrightarrow> tables d' = tables d
    \<and> (\<forall>p. r = Inr p \<longrightarrow> p = (case fmlookup (db_kv d) k of None \<Rightarrow> ([], False) | Some v \<Rightarrow> (v, True)))"
proof -
  assume "GetKV k d = (r, d')"
  from query_effect [OF this [unfolded GetKV_def]] obtain f where d': "d' = d\<lparr>db_faults := f\<rparr>"
    and v: "\<forall>v. r = Inr v \<longrightarrow> v = (case fmlookup (db_kv d') k of None \<Rightarrow> ([], False) | Some v \<Rightarrow> (v, True))"
    by blast
  from v show ?thesis by (simp add: d')
qed

lemma SetKV_effect: "SetKV k v d = (Inr u, d') \<Longrightarrow> tables d' = tables (d\<lparr>db_kv := fmupd k v (db_kv d)\<rparr>)"
  by (auto simp: SetKV_def dest!: exec_effect)

lemma Open_effect: "Open f = (Inr d, d') \<Longrightarrow> tables d = tables (case f of None \<Rightarrow> empty_db | Some t \<Rightarrow> t)"
  by (auto simp: Open_def Let_def dest!: exec_effect split: prod.splits sum.splits option.splits)

lemma OpenClient_effect:
  assumes "OpenClient f uuid url [] = (Inr c, d)"
  shows "fmlookup (db_kv (c_db c)) kvDeviceID = Some (c_device c)
    \<and> (\<forall>t. f = Some t \<longrightarrow> ops (c_db c) = ops t
        \<and> (\<forall>i. fmlookup (db_kv t) kvDeviceID = Some i \<longrightarrow> c_device c = i \<and> db_kv (c_db c) = db_kv t))
    \<and> c_clock c = NewClock (c_device c)"
proof -
  obtain d0 d00 where 0: "Open f = (Inr d0, d00)"
    using assms by (auto simp: OpenClient_def split: prod.splits sum.splits)
  obtain i b d1 where 1: "GetKV kvDeviceID d0 = (Inr (i, b), d1)"
    using assms 0 by (auto simp: OpenClient_def split: prod.splits sum.splits)
  note t0 = tables_eq [OF Open_effect [OF 0]] and t1 = GetKV_effect [OF 1]
  show ?thesis
  proof (cases b)
    case True
    with assms 0 1 t0 t1 tables_eq [OF conjunct1 [OF t1]] show ?thesis
      by (auto simp: OpenClient_def Let_def split: option.splits)
  next
    case False
    then obtain u d2 where 2: "SetKV kvDeviceID uuid d1 = (Inr u, d2)"
      using assms 0 1 by (auto simp: OpenClient_def split: prod.splits sum.splits)
    with assms 0 1 False t0 t1 tables_eq [OF conjunct1 [OF t1]] tables_eq [OF SetKV_effect [OF 2]]
    show ?thesis
      by (auto simp: OpenClient_def Let_def split: option.splits)
  qed
qed

text \<open>C38: A device's identity is assigned once: reopening a store gives the same device id and the
  same log, whatever new id would have been generated; but the clock starts again from zero.\<close>

theorem reopened_identity:
  assumes "OpenClient f uuid url [] = (Inr c, d)" and "OpenClient (Some (c_db c)) uuid' url' [] = (Inr c', d')"
  shows "DeviceID c' = DeviceID c \<and> ops (c_db c') = ops (c_db c) \<and> c_clock c' = NewClock (DeviceID c)"
  using OpenClient_effect [OF assms(1)] OpenClient_effect [OF assms(2)] by (simp add: DeviceID_def)

theorem reopened_identity_witness:
  "\<exists>c c' d d'. OpenClient None ''u1'' ''http://s'' [] = (Inr c, d)
     \<and> OpenClient (Some (c_db c)) ''u2'' ''http://s'' [] = (Inr c', d') \<and> DeviceID c' = DeviceID c"
proof -
  obtain c d where 1: "OpenClient None ''u1'' ''http://s'' [] = (Inr c, d)" and f: "db_faults (c_db c) = []"
    by (simp add: OpenClient_def Open_def GetKV_def SetKV_def store_simps Let_def)
  obtain c' d' where 2: "OpenClient (Some (c_db c)) ''u2'' ''http://s'' [] = (Inr c', d')"
    using f by (cases "fmlookup (db_kv (c_db c)) kvDeviceID")
      (simp_all add: OpenClient_def Open_def GetKV_def SetKV_def store_simps Let_def)
  from 1 2 conjunct1 [OF reopened_identity [OF 1 2]] show ?thesis by (intro exI conjI)
qed

end
