(* ===== verification/SyncServer.thy ===== *)
theory SyncServer
  imports Acceptance WireApi
begin

text \<open>
  The server's request handlers, \<open>internal/server\<close>: authentication and device registration
  (\<open>auth.go\<close>), push, pull, status and record lookup (\<open>sync.go\<close>). A handler takes the decoded
  request and the database and returns a reply with the new database.
\<close>

section \<open>Replies\<close>

text \<open>\<open>writeJSON\<close> with a status and a body, or \<open>writeError\<close> with a status and a message.\<close>

datatype 'a reply = Reply nat 'a | Failure nat string

fun status_of :: "'a reply \<Rightarrow> nat" where
  "status_of (Reply n b) = n"
| "status_of (Failure n m) = n"

section \<open>Authentication\<close>

text \<open>
  The digest \<open>sha\<close> is the parameter for \<open>crypto/sha256\<close> and the result of \<open>rand.Read\<close> is an
  argument; the hexadecimal text around them is the code's.
\<close>

type_synonym bytes = "8 word list"

definition hex_digit :: "nat \<Rightarrow> char" where
  "hex_digit n = (if n < 10 then char_of (48 + n) else char_of (87 + n))"

fun hex_encode :: "bytes \<Rightarrow> string" where
  "hex_encode [] = []"
| "hex_encode (b # bs) = hex_digit (unat b div 16) # hex_digit (unat b mod 16) # hex_encode bs"

definition hashToken :: "(string \<Rightarrow> bytes) \<Rightarrow> string \<Rightarrow> string" where
  "hashToken sha token = hex_encode (sha token)"

definition newDeviceToken :: "bytes result \<Rightarrow> string result" where
  "newDeviceToken random = (case random of Inl e \<Rightarrow> Inl e | Inr buf \<Rightarrow> Inr (hex_encode buf))"

definition requireAuth ::
    "(string \<Rightarrow> bytes) \<Rightarrow> (device \<Rightarrow> db \<Rightarrow> 'a reply \<times> db) \<Rightarrow> string \<Rightarrow> db \<Rightarrow> 'a reply \<times> db" where
  "requireAuth sha nxt authz d =
     (case cut_prefix authz ''Bearer '' of
        None \<Rightarrow> (Failure 401 ''missing bearer token'', d)
      | Some token \<Rightarrow>
          (if token = [] then (Failure 401 ''missing bearer token'', d)
           else case DeviceByTokenHash (hashToken sha token) d of
                  (Inl e, d1) \<Rightarrow> (Failure 500 (''looking up device: '' @ err_text e), d1)
                | (Inr (dev, found), d1) \<Rightarrow>
                    (if \<not> found then (Failure 401 ''invalid device token'', d1)
                     else nxt dev d1)))"

definition handleRegisterDevice ::
    "(string \<Rightarrow> bytes) \<Rightarrow> bytes result \<Rightarrow> time \<Rightarrow> register_request result \<Rightarrow> db
       \<Rightarrow> register_response reply \<times> db" where
  "handleRegisterDevice sha random now body d =
     (case body of
        Inl e \<Rightarrow> (Failure 400 (''invalid request body: '' @ err_text e), d)
      | Inr req \<Rightarrow>
          (if trim_space_empty (rq_device req) then (Failure 400 ''device_id is required'', d)
           else if trim_space_empty (rq_name req) then (Failure 400 ''device_name is required'', d)
           else case newDeviceToken random of
                  Inl e \<Rightarrow> (Failure 500 (''generating device token: '' @ err_text e), d)
                | Inr token \<Rightarrow>
                    (let dev = \<lparr>dev_id = rq_device req, dev_name = rq_name req,
                                 dev_hash = hashToken sha token, dev_created = now\<rparr>
                     in case CreateDevice dev d of
                          (Inl e, d1) \<Rightarrow> (Failure 500 (''registering device: '' @ err_text e), d1)
                        | (Inr _, d1) \<Rightarrow>
                            (Reply 201 \<lparr>rs_device = dev_id dev, rs_token = token\<rparr>, d1))))"

section \<open>Push\<close>

text \<open>
  The loop over the request's operations, with the accepted ids and the conflicts gathered so
  far; a refused or failed operation ends the request with its status and message. \<open>now\<close> gives
  the reading of \<open>nowFunc\<close> taken while an operation is handled.
\<close>

type_synonym refusal = "nat \<times> string"

definition push_op :: "(op \<Rightarrow> time) \<Rightarrow> device \<Rightarrow> wire_op \<Rightarrow> db
    \<Rightarrow> (refusal + string \<times> conflict_info list) \<times> db" where
  "push_op now dev dto d =
     (case ToOplog dto of
        Inl e \<Rightarrow> (Inl (400, ''invalid op: '' @ err_text e), d)
      | Inr x \<Rightarrow>
          (if op_device x \<noteq> dev_id dev
           then (Inl (403, ''op device_id does not match authenticated device''), d)
           else case AppendOp x True d of
             (Inl e, d1) \<Rightarrow> (Inl (500, ''storing op: '' @ err_text e), d1)
           | (Inr (stored, inserted), d1) \<Rightarrow>
               (if \<not> inserted then (Inr (op_id stored, []), d1)
                else case GetRecord (op_collection stored) (op_record stored) d1 of
                  (Inl e, d2) \<Rightarrow> (Inl (500, ''loading record: '' @ err_text e), d2)
                | (Inr (existing, found), d2) \<Rightarrow>
                    (let decision = Resolve existing found stored
                     in case PutRecord (dec_record decision) d2 of
                          (Inl e, d3) \<Rightarrow> (Inl (500, ''saving record: '' @ err_text e), d3)
                        | (Inr _, d3) \<Rightarrow>
                            (if \<not> dec_conflicted decision then (Inr (op_id stored, []), d3)
                             else case RecordConflict
                                 \<lparr>con_id = 0, con_collection = op_collection stored,
                                  con_record = op_record stored, con_winner = dec_winner decision,
                                  con_loser = dec_loser decision, con_seq = op_seq stored,
                                  con_at = now stored\<rparr> d3 of
                               (Inl e, d4) \<Rightarrow> (Inl (500, ''recording conflict: '' @ err_text e), d4)
                             | (Inr _, d4) \<Rightarrow>
                                 (Inr (op_id stored,
                                   [\<lparr>ci_collection = op_collection stored,
                                     ci_record = op_record stored,
                                     ci_winner = dec_winner decision,
                                     ci_loser = dec_loser decision\<rparr>]), d4))))))"

fun push_loop :: "(op \<Rightarrow> time) \<Rightarrow> device \<Rightarrow> wire_op list \<Rightarrow> string list \<Rightarrow> conflict_info list \<Rightarrow> db
    \<Rightarrow> (refusal + string list \<times> conflict_info list) \<times> db" where
  "push_loop now dev [] accepted conflicts d = (Inr (accepted, conflicts), d)"
| "push_loop now dev (dto # dtos) accepted conflicts d =
     (case push_op now dev dto d of
        (Inl r, d1) \<Rightarrow> (Inl r, d1)
      | (Inr (i, cs), d1) \<Rightarrow> push_loop now dev dtos (accepted @ [i]) (conflicts @ cs) d1)"

definition handlePush :: "(op \<Rightarrow> time) \<Rightarrow> wire_op list result \<Rightarrow> device \<Rightarrow> db
    \<Rightarrow> push_response reply \<times> db" where
  "handlePush now body dev d =
     (case body of
        Inl e \<Rightarrow> (Failure 400 (''invalid request body: '' @ err_text e), d)
      | Inr dtos \<Rightarrow>
          (case push_loop now dev dtos [] [] d of
             (Inl (status, msg), d1) \<Rightarrow> (Failure status msg, d1)
           | (Inr (accepted, conflicts), d1) \<Rightarrow>
               (case CurrentCheckpoint d1 of
                  (Inl e, d2) \<Rightarrow> (Failure 500 (''reading checkpoint: '' @ err_text e), d2)
                | (Inr checkpoint, d2) \<Rightarrow>
                    (Reply 200 \<lparr>pr_accepted = accepted, pr_conflicts = conflicts,
                                 pr_checkpoint = checkpoint\<rparr>, d2))))"

section \<open>Pull, status, records\<close>

text \<open>
  An absent query parameter is the empty text. The text of \<open>strconv\<close>'s error is modelled
  without the quoted input.
\<close>

definition parseInt64 :: "string \<Rightarrow> int \<Rightarrow> int result" where
  "parseInt64 s def = (if s = [] then Inr def else parse_int s)"

definition parseInt :: "string \<Rightarrow> int \<Rightarrow> int result" where
  "parseInt s def = (if s = [] then Inr def else parse_int s)"

definition handlePull :: "string \<Rightarrow> string \<Rightarrow> string \<Rightarrow> device \<Rightarrow> db \<Rightarrow> pull_response reply \<times> db" where
  "handlePull q_since q_limit q_collection dev d =
     (case parseInt64 q_since 0 of
        Inl e \<Rightarrow> (Failure 400 (''invalid since: '' @ err_text e), d)
      | Inr since \<Rightarrow>
          (case parseInt q_limit 0 of
             Inl e \<Rightarrow> (Failure 400 (''invalid limit: '' @ err_text e), d)
           | Inr limit \<Rightarrow>
               (case OpsSince since q_collection (word_of_int limit) d of
                  (Inl e, d1) \<Rightarrow> (Failure 500 (''reading ops: '' @ err_text e), d1)
                | (Inr (found, nxt, hasMore), d1) \<Rightarrow>
                    (Reply 200 \<lparr>pl_ops = map FromOplog found, pl_next = nxt,
                                 pl_more = hasMore\<rparr>, d1))))"

definition handleStatus :: "device \<Rightarrow> db \<Rightarrow> status_response reply \<times> db" where
  "handleStatus dev d =
     (case CurrentCheckpoint d of
        (Inl e, d1) \<Rightarrow> (Failure 500 (''reading checkpoint: '' @ err_text e), d1)
      | (Inr checkpoint, d1) \<Rightarrow>
          (case ListConflicts d1 of
             (Inl e, d2) \<Rightarrow> (Failure 500 (''reading conflicts: '' @ err_text e), d2)
           | (Inr conflicts, d2) \<Rightarrow>
               (Reply 200 \<lparr>st_device = dev_id dev, st_checkpoint = checkpoint,
                            st_conflicts = length conflicts\<rparr>, d2)))"

definition handleGetRecord :: "string \<Rightarrow> string \<Rightarrow> device \<Rightarrow> db \<Rightarrow> record_response reply \<times> db" where
  "handleGetRecord collection i dev d =
     (case GetRecord collection i d of
        (Inl e, d1) \<Rightarrow> (Failure 500 (''reading record: '' @ err_text e), d1)
      | (Inr (r, found), d1) \<Rightarrow>
          (if \<not> found then (Failure 404 ''record not found'', d1)
           else (Reply 200 \<lparr>rr_collection = rec_collection r, rr_record = rec_id r,
                             rr_payload = rec_payload r, rr_deleted = rec_deleted r,
                             rr_vv = rec_vv r\<rparr>, d1)))"

section \<open>Who is let in\<close>

lemma scanDevice_simps [simp]: "scanDevice None = (zero_device, False)" "scanDevice (Some v) = (v, True)"
  by (simp_all add: scanDevice_def)

lemma lookup_outcome:
  "(\<exists>e f. DeviceByTokenHash h d = (Inl e, d\<lparr>db_faults := f\<rparr>))
   \<or> (\<exists>f. DeviceByTokenHash h d =
        (Inr (scanDevice (find (\<lambda>v. dev_hash v = h) (db_devices d))), d\<lparr>db_faults := f\<rparr>))"
proof (cases "DeviceByTokenHash h d")
  case (Pair r d')
  with query_effect [of "\<lambda>t. scanDevice (find (\<lambda>v. dev_hash v = h) (db_devices t))" d r d']
  show ?thesis by (cases r) (auto simp: DeviceByTokenHash_def)
qed

lemma requireAuth_cases:
  "(\<exists>token v f. authz = ''Bearer '' @ token \<and> token \<noteq> [] \<and> v \<in> set (db_devices d)
      \<and> dev_hash v = hashToken sha token
      \<and> requireAuth sha nxt authz d = nxt v (d\<lparr>db_faults := f\<rparr>))
   \<or> (\<exists>n msg f. requireAuth sha nxt authz d = (Failure n msg, d\<lparr>db_faults := f\<rparr>)
      \<and> (n = 401 \<or> n = 500))"
proof (cases "cut_prefix authz ''Bearer ''")
  case None
  then show ?thesis by (auto simp: requireAuth_def intro!: exI [of _ "db_faults d"])
next
  case (Some token)
  then have a: "authz = ''Bearer '' @ token" by (rule cut_prefix_SomeD)
  show ?thesis
  proof (cases "token = []")
    case True
    with Some show ?thesis by (auto simp: requireAuth_def intro!: exI [of _ "db_faults d"])
  next
    case False
    let ?found = "find (\<lambda>v. dev_hash v = hashToken sha token) (db_devices d)"
    consider (fail) e f where "DeviceByTokenHash (hashToken sha token) d = (Inl e, d\<lparr>db_faults := f\<rparr>)"
      | (found) f where "DeviceByTokenHash (hashToken sha token) d = (Inr (scanDevice ?found), d\<lparr>db_faults := f\<rparr>)"
      using lookup_outcome by blast
    then show ?thesis
    proof cases
      case fail
      with False Some show ?thesis by (auto simp: requireAuth_def)
    next
      case found
      show ?thesis
      proof (cases ?found)
        case None
        with found False Some show ?thesis by (auto simp: requireAuth_def)
      next
        case (Some v)
        then have "v \<in> set (db_devices d)" "dev_hash v = hashToken sha token"
          by (auto simp: find_Some_iff)
        moreover have "requireAuth sha nxt authz d = nxt v (d\<lparr>db_faults := f\<rparr>)"
          using found Some False by (simp add: requireAuth_def a)
        ultimately show ?thesis using a False by blast
      qed
    qed
  qed
qed

text \<open>C19: Whatever statements fail, a request reaches the handler behind \<open>requireAuth\<close> only with a
  non-empty bearer token whose digest is stored for the device the handler is given; any other
  request is answered 401, or 500 when the lookup fails, and leaves the tables as they were.\<close>

theorem requireAuth_gate:
  "(\<exists>token v f. authz = ''Bearer '' @ token \<and> token \<noteq> [] \<and> v \<in> set (db_devices d)
      \<and> dev_hash v = hashToken sha token
      \<and> requireAuth sha nxt authz d = nxt v (d\<lparr>db_faults := f\<rparr>))
   \<or> (\<exists>n msg f. requireAuth sha nxt authz d = (Failure n msg, d\<lparr>db_faults := f\<rparr>)
      \<and> (n = 401 \<or> n = 500))"
  by (rule requireAuth_cases)

lemma requireAuth_token:
  assumes "db_faults d = []" and "token \<noteq> []"
  shows "requireAuth sha nxt (''Bearer '' @ token) d =
    (case find (\<lambda>v. dev_hash v = hashToken sha token) (db_devices d) of
       None \<Rightarrow> (Failure 401 ''invalid device token'', d)
     | Some v \<Rightarrow> nxt v d)"
  using assms
  by (simp add: requireAuth_def DeviceByTokenHash_def store_simps split: option.split)

text \<open>The request and the database after a registration that goes through.\<close>

definition registered :: "(string \<Rightarrow> bytes) \<Rightarrow> bytes \<Rightarrow> time \<Rightarrow> register_request \<Rightarrow> db \<Rightarrow> db" where
  "registered sha buf now req d =
     d\<lparr>db_devices := upsert_device \<lparr>dev_id = rq_device req, dev_name = rq_name req,
          dev_hash = hashToken sha (hex_encode buf), dev_created = now\<rparr> (db_devices d)\<rparr>"

lemma handleRegisterDevice_ok:
  assumes "db_faults d = []" and "\<not> trim_space_empty (rq_device req)" and "\<not> trim_space_empty (rq_name req)"
  shows "handleRegisterDevice sha (Inr buf) now (Inr req) d =
    (Reply 201 \<lparr>rs_device = rq_device req, rs_token = hex_encode buf\<rparr>, registered sha buf now req d)"
  using assms
  by (simp add: handleRegisterDevice_def newDeviceToken_def CreateDevice_def registered_def
      store_simps Let_def)

lemma hex_encode_Nil [simp]: "hex_encode bs = [] \<longleftrightarrow> bs = []"
  by (cases bs) simp_all

text \<open>C20: A registered device is let in with the token of the reply, as itself, and with no other
  token it had before: registering an id again rotates its token. The new token's digest must
  not be another device's.\<close>

theorem registration_rotates_token:
  assumes "db_faults d = []" and "distinct (map dev_id (db_devices d))"
    and "handleRegisterDevice sha (Inr buf) now (Inr req) d = (Reply n r, d')" and "buf \<noteq> []"
    and "\<forall>v \<in> set (db_devices d). dev_hash v = hashToken sha (rs_token r) \<longrightarrow> dev_id v = rq_device req"
    and "\<forall>v \<in> set (db_devices d). dev_hash v = hashToken sha old \<longrightarrow> dev_id v = rq_device req"
    and "old \<noteq> []" and "hashToken sha old \<noteq> hashToken sha (rs_token r)"
  shows "(\<exists>v. dev_id v = rq_device req \<and> requireAuth sha nxt (''Bearer '' @ rs_token r) d' = nxt v d')
    \<and> requireAuth sha nxt (''Bearer '' @ old) d' = (Failure 401 ''invalid device token'', d')"
proof -
  have ne: "\<not> trim_space_empty (rq_device req)" "\<not> trim_space_empty (rq_name req)"
    using assms(3) by (auto simp: handleRegisterDevice_def split: if_splits)
  note ok = handleRegisterDevice_ok [OF assms(1) ne, of sha buf now]
  then have r: "rs_token r = hex_encode buf" and d': "d' = registered sha buf now req d"
    using assms(3) by auto
  let ?v = "\<lparr>dev_id = rq_device req, dev_name = rq_name req,
    dev_hash = hashToken sha (hex_encode buf), dev_created = now\<rparr>"
  have devs: "db_devices d' = upsert_device ?v (db_devices d)" and f: "db_faults d' = []"
    using assms(1) by (simp_all add: d' registered_def)
  obtain v where "find (\<lambda>e. dev_hash e = dev_hash ?v) (upsert_device ?v (db_devices d)) = Some v"
    "dev_id v = rq_device req"
    using find_upsert_hash [of "db_devices d" ?v] assms(5) r by auto
  moreover have "find (\<lambda>e. dev_hash e = hashToken sha old) (upsert_device ?v (db_devices d)) = None"
    by (rule find_upsert_old_hash [OF assms(2)]) (use assms(6,8) r in simp_all)
  ultimately show ?thesis
    using assms(4,7) by (auto simp: requireAuth_token [OF f] devs r simp del: append_Cons append.simps)
qed

section \<open>Push accepts operations\<close>

lemma push_op_ok:
  assumes f: "db_faults d = []" and w: "ToOplog w = Inr x" and dev: "op_device x = dev_id dev"
  shows "push_op now dev w d = (Inr (op_id x, conflict_infos x d), accept now True x d)"
proof -
  have v: "Validate x = None" using ToOplog_Inr(1) [OF w] .
  show ?thesis
  proof (cases "op_id x \<in> op_id ` set (ops d)")
    case True
    with accept_known_steps [OF f v True, of True] w dev show ?thesis
      by (auto simp: push_op_def conflict_infos_def accept_known)
  next
    case False
    from accept_steps [OF f v False, of True now] w dev False show ?thesis
      by (elim exE conjE) (simp add: push_op_def conflict_infos_def conflict_row_def Let_def)
  qed
qed

text \<open>A push is an \<open>event_log\<close> operation for the operations of the authenticated device.\<close>

definition push_ready :: "device \<Rightarrow> op \<Rightarrow> db \<Rightarrow> bool" where
  "push_ready dev x d \<longleftrightarrow> ready x d \<and> op_device x = dev_id dev"

lemma push_op_accept: "push_ready dev x d \<Longrightarrow>
    push_op now dev (FromOplog x) d = (Inr (op_id x, conflict_infos x d), accept now True x d)"
  by (rule push_op_ok) (simp_all add: push_ready_def ready_def ToOplog_FromOplog)

interpretation srv: event_log ops view "\<lambda>x d. snd (push_op now dev (FromOplog x) d)" "push_ready dev"
  for now dev
  by unfold_locales
    (auto simp: push_op_accept, auto simp: push_ready_def intro: acc.log_known acc.view_known
      acc.log_new acc.view_new acc.ready_add)

lemma push_loop_ok:
  assumes "\<forall>x \<in> set xs. push_ready dev x d"
  shows "\<exists>cs'. push_loop now dev (map FromOplog xs) acc cs d =
    (Inr (acc @ map op_id xs, cs @ cs'), foldl (\<lambda>d x. accept now True x d) d xs)"
  using assms
proof (induction xs arbitrary: acc cs d)
  case Nil
  then show ?case by simp
next
  case (Cons x xs)
  then have "\<forall>y \<in> set xs. push_ready dev y (accept now True x d)"
    by (auto simp: push_ready_def intro: acc.ready_add)
  from Cons.IH [OF this, of "acc @ [op_id x]" "cs @ conflict_infos x d"] Cons.prems
  show ?case by (auto simp: push_op_accept)
qed

lemma CurrentCheckpoint_ok: "db_faults d = [] \<Longrightarrow> CurrentCheckpoint d = (Inr (db_next d - 1), d)"
  by (simp add: CurrentCheckpoint_def store_simps)

lemma accept_all_faults [simp]: "db_faults (foldl (\<lambda>d x. accept now a x d) d xs) = db_faults d"
  by (induction xs arbitrary: d) simp_all

lemma accept_all_dense: "dense_log d \<Longrightarrow> dense_log (foldl (\<lambda>d x. accept now True x d) d xs)"
  by (induction xs arbitrary: d) (simp_all add: accept_dense)

lemma handlePush_ok:
  assumes "\<forall>x \<in> set xs. push_ready dev x d" and "db_faults d = []"
  obtains cs where "handlePush now (Inr (map FromOplog xs)) dev d =
    (Reply 200 \<lparr>pr_accepted = map op_id xs, pr_conflicts = cs,
       pr_checkpoint = db_next (foldl (\<lambda>d x. accept now True x d) d xs) - 1\<rparr>,
     foldl (\<lambda>d x. accept now True x d) d xs)"
  using push_loop_ok [OF assms(1), of now "[]" "[]"] assms(2)
  by (auto simp: handlePush_def CurrentCheckpoint_ok)

text \<open>C10: A push of valid operations by their own device into a store whose records are the fold
  of its log acknowledges every id, stores every operation, keeps the checkpoints dense and
  answers with the last one, and leaves the records the fold of the new log.\<close>

theorem push_keeps_view:
  assumes "\<forall>x \<in> set xs. push_ready dev x d" and "db_faults d = []"
    and "dense_log d" and "view d = view_of_log (ops d)"
  shows "case handlePush now (Inr (map FromOplog xs)) dev d of (r, d') \<Rightarrow>
    (\<exists>cs. r = Reply 200 \<lparr>pr_accepted = map op_id xs, pr_conflicts = cs,
                       pr_checkpoint = int (length (ops d'))\<rparr>)
    \<and> op_id ` set (ops d') = op_id ` set xs \<union> op_id ` set (ops d)
    \<and> dense_log d' \<and> view d' = view_of_log (ops d')"
proof -
  let ?d' = "foldl (\<lambda>d x. accept now True x d) d xs"
  have r: "\<forall>x \<in> set xs. ready x d" using assms(1) by (simp add: push_ready_def)
  obtain cs where h: "handlePush now (Inr (map FromOplog xs)) dev d =
    (Reply 200 \<lparr>pr_accepted = map op_id xs, pr_conflicts = cs, pr_checkpoint = db_next ?d' - 1\<rparr>, ?d')"
    by (rule handlePush_ok [OF assms(1,2)])
  have "dense_log ?d'" by (rule accept_all_dense [OF assms(3)])
  with h acc.add_all_ids [OF r] acc.add_all_view [OF r assms(4)] show ?thesis
    by (simp add: dense_log_def)
qed


text \<open>C21: A push stops at the first operation that does not decode (400) or is not the
  authenticated device's (403); the operations before it stay stored and resolved, those after
  it are not looked at.\<close>

theorem push_refusal_keeps_prefix:
  assumes "\<forall>x \<in> set xs. push_ready dev x d"
    and "case ToOplog w of Inl e \<Rightarrow> True | Inr x \<Rightarrow> op_device x \<noteq> dev_id dev"
  shows "\<exists>msg. handlePush now (Inr (map FromOplog xs @ w # ws)) dev d =
    (Failure (case ToOplog w of Inl e \<Rightarrow> 400 | Inr x \<Rightarrow> 403) msg,
     foldl (\<lambda>d x. accept now True x d) d xs)"
proof -
  have "\<exists>msg. push_loop now dev (map FromOplog xs @ w # ws) as cs d =
      (Inl (case ToOplog w of Inl e \<Rightarrow> 400 | Inr x \<Rightarrow> 403, msg),
       foldl (\<lambda>d x. accept now True x d) d xs)" for as cs
    using assms(1)
  proof (induction xs arbitrary: as cs d)
    case Nil
    then show ?case using assms(2) by (auto simp: push_op_def split: sum.splits)
  next
    case (Cons x xs)
    then have "\<forall>y \<in> set xs. push_ready dev y (accept now True x d)"
      by (auto simp: push_ready_def intro: acc.ready_add)
    from Cons.IH [OF this, of "as @ [op_id x]" "cs @ conflict_infos x d"] Cons.prems
    show ?case by (simp add: push_op_accept)
  qed
  from this [of "[]" "[]"] show ?thesis by (auto simp: handlePush_def)
qed

subsection \<open>Examples\<close>

definition device_a :: device where
  "device_a = \<lparr>dev_id = ''device-a'', dev_name = ''A'', dev_hash = ''aa'', dev_created = 0\<rparr>"

lemma example_ready: "push_ready device_a opA empty_db"
  by (simp add: push_ready_def ready_def device_a_def Validate_None_iff valid_type_def makeOp_def)

theorem push_keeps_view_witness:
  "let d' = snd (handlePush (\<lambda>_. 0) (Inr (map FromOplog [opA])) device_a empty_db) in
     op_id ` set (ops d') = {''op-a''} \<and> view d' = view_of_log (ops d')"
  using push_keeps_view [of "[opA]" device_a empty_db "\<lambda>_. 0"] example_ready
  by (simp add: Let_def split: prod.splits)


theorem push_refusal_keeps_prefix_witness:
  "\<exists>msg. handlePush (\<lambda>_. 0) (Inr (map FromOplog [opA] @ FromOplog opB # [FromOplog opC])) device_a empty_db
     = (Failure 403 msg, accept (\<lambda>_. 0) True opA empty_db)"
proof -
  have "ToOplog (FromOplog opB) = Inr opB"
    by (rule ToOplog_FromOplog) (simp add: Validate_None_iff valid_type_def makeOp_def)
  then show ?thesis
    using push_refusal_keeps_prefix [of "[opA]" device_a empty_db "FromOplog opB" "\<lambda>_. 0" "[FromOplog opC]"]
      example_ready by (simp add: device_a_def)
qed

section \<open>What a pull returns\<close>

lemma format_int_neq_Nil [simp]: "format_int i \<noteq> []"
  by (simp add: format_int_def)

lemma OpsSince_ok: "db_faults d = [] \<Longrightarrow> \<exists>page nxt hasMore. OpsSince since c n d = (Inr (page, nxt, hasMore), d)"
  by (simp add: OpsSince_def store_simps Let_def)

lemma OpsSince_reads: "db_faults d = [] \<Longrightarrow> seq_sorted d \<Longrightarrow>
    \<exists>nxt. OpsSince since c n d =
      (Inr (take (page_size n) (since_ops since c d), nxt, since_ops nxt c d \<noteq> []), d)
      \<and> since_ops nxt c d = drop (page_size n) (since_ops since c d)"
proof -
  assume f: "db_faults d = []" and s: "seq_sorted d"
  obtain page nxt hasMore where q: "OpsSince since c n d = (Inr (page, nxt, hasMore), d)"
    using OpsSince_ok [OF f] by blast
  from q OpsSince_page_eq [OF f s q] show ?thesis by simp
qed

lemma handlePull_ok:
  assumes "db_faults d = []" and "seq_sorted d" and "- (2 ^ 63) \<le> since" and "since < 2 ^ 63"
  shows "\<exists>nxt. handlePull (format_int since) (format_int (sint limit)) c dev d =
    (Reply 200 \<lparr>pl_ops = map FromOplog (take (page_size limit) (since_ops since c d)),
        pl_next = nxt, pl_more = (since_ops nxt c d \<noteq> [])\<rparr>, d)
    \<and> since_ops nxt c d = drop (page_size limit) (since_ops since c d)"
proof -
  have "- (2 ^ 63) \<le> sint limit" "sint limit < 2 ^ 63"
    using sint_ge [of limit] sint_lt [of limit] by simp_all
  with assms(3,4) show ?thesis
    using OpsSince_reads [OF assms(1,2), of since c limit]
    by (auto simp: handlePull_def parseInt64_def parseInt_def parse_format_int)
qed

text \<open>C22: A pull answers 200 with the first \<open>limit\<close> operations after the checkpoint, a next
  checkpoint after which exactly the operations it left out follow, and whether there are any; a
  checkpoint that is no number is answered 400. It changes nothing.\<close>

theorem pull_pages:
  assumes "db_faults d = []" and "dense_log d" and "- (2 ^ 63) \<le> since" and "since < 2 ^ 63"
  shows "(\<exists>nxt. handlePull (format_int since) (format_int (sint limit)) c dev d =
      (Reply 200 \<lparr>pl_ops = map FromOplog (take (page_size limit) (since_ops since c d)),
          pl_next = nxt, pl_more = (since_ops nxt c d \<noteq> [])\<rparr>, d)
      \<and> since_ops nxt c d = drop (page_size limit) (since_ops since c d))
    \<and> status_of (fst (handlePull ''1x'' q c dev d)) = 400 \<and> snd (handlePull ''1x'' q c dev d) = d"
proof -
  have "parse_int ''1x'' = Inl (ErrNew ''invalid syntax'')"
    by (simp add: parse_int_def parse_unsigned_def char_digit_def)
  then show ?thesis
    using handlePull_ok [OF assms(1) dense_log_sorted [OF assms(2)] assms(3,4)]
    by (auto simp: handlePull_def parseInt64_def)
qed

theorem pull_pages_witness:
  "\<exists>nxt. handlePull (format_int 1) (format_int (sint (1 :: i64))) [] device_a example_db =
     (Reply 200 \<lparr>pl_ops = [FromOplog (opB\<lparr>op_seq := 2\<rparr>)], pl_next = nxt, pl_more = True\<rparr>, example_db)"
proof -
  have "dense_log example_db"
    by (simp add: dense_log_def ops_example) (simp add: example_db_def appended_def select_seq_def
        empty_db_def ops_def insert_op_def Let_def)
  then have "\<exists>nxt. handlePull (format_int 1) (format_int (sint (1 :: i64))) [] device_a example_db =
      (Reply 200 \<lparr>pl_ops = map FromOplog (take (page_size 1) (since_ops 1 [] example_db)),
          pl_next = nxt, pl_more = (since_ops nxt [] example_db \<noteq> [])\<rparr>, example_db)
      \<and> since_ops nxt [] example_db = drop (page_size 1) (since_ops 1 [] example_db)"
    using pull_pages [of example_db 1 1 "[]" device_a] by simp
  moreover have "since_ops 1 [] example_db = [opB\<lparr>op_seq := 2\<rparr>, opC\<lparr>op_seq := 3\<rparr>]"
    by (simp add: since_ops_def ops_example)
  moreover have "page_size 1 = 1" by (simp add: page_size_def)
  ultimately show ?thesis by auto
qed

theorem registration_rotates_token_witness:
  "let sha = map (\<lambda>c. of_nat (of_char c));
       req = \<lparr>rq_device = ''device-a'', rq_name = ''A''\<rparr>;
       d = registered sha [10] 5 req empty_db;
       d' = snd (handleRegisterDevice sha (Inr [255]) 6 (Inr req) d)
   in requireAuth sha handleStatus (''Bearer 0a'') d' = (Failure 401 ''invalid device token'', d')"
proof -
  let ?sha = "map (\<lambda>c. of_nat (of_char c)) :: string \<Rightarrow> bytes"
  let ?req = "\<lparr>rq_device = ''device-a'', rq_name = ''A''\<rparr>"
  let ?d = "registered ?sha [10] 5 ?req empty_db"
  have ts: "\<not> trim_space_empty ''device-a''" "\<not> trim_space_empty ''A''"
    by (simp_all add: trim_space_empty_def space2_def space3_def)
  have f: "db_faults ?d = []" by (simp add: registered_def)
  note h = handleRegisterDevice_ok [OF f, of ?req ?sha "[255]" 6]
  have ha: "hex_encode [10] = ''0a''" "hex_encode [255] = ''ff''"
    by (simp_all add: hex_digit_def char_of_def bit_iff_odd)
  show ?thesis
    using registration_rotates_token [OF f _ h, of "''0a''" handleStatus] ts h
    by (simp add: registered_def ha empty_db_def hashToken_def) (simp add: hex_digit_def)
qed


end
