(* ===== verification/SyncSystem.thy ===== *)
theory SyncSystem
  imports Causality ClientFacts SyncServer
begin

text \<open>
  Any number of devices and one server, composed from the code's operations: a step is one local
  write, one operation pushed to the server, one pulled by a device, or one of the updates of
  bookkeeping between them, in any order and interleaving. Every request of the protocol is a
  sequence of such steps, also one that is cut off, repeated or whose reply is lost.
\<close>

section \<open>Steps\<close>

record system =
  sys_client :: "string \<Rightarrow> client"
  sys_server :: db

definition set_client :: "string \<Rightarrow> client \<Rightarrow> system \<Rightarrow> system" where
  "set_client i c s = s\<lparr>sys_client := (sys_client s)(i := c)\<rparr>"

text \<open>A Go \<open>int64\<close>.\<close>

definition int64 :: "int \<Rightarrow> bool" where
  "int64 n \<longleftrightarrow> - (2 ^ 63) \<le> n \<and> n < 2 ^ 63"

definition ids :: "db \<Rightarrow> string set" where
  "ids d = op_id ` set (ops d)"

text \<open>
  Reads have no step. \<open>uuid.NewString\<close> never returns an id that was used before. A device marks
  as pushed what the server has acknowledged and saves checkpoints up to which it has applied the
  server's log.
\<close>

inductive step :: "system \<Rightarrow> system \<Rightarrow> bool" where
  Write: "i \<noteq> [] \<Longrightarrow> uuid \<noteq> [] \<Longrightarrow> collection \<noteq> [] \<Longrightarrow> recordID \<noteq> [] \<Longrightarrow>
    del \<or> payload \<noteq> None \<Longrightarrow> payload \<noteq> Some [] \<Longrightarrow> int64 phys \<Longrightarrow>
    (\<And>j. uuid \<notin> ids (c_db (sys_client s j))) \<Longrightarrow>
    step s (set_client i (snd (applyLocalWrite uuid phys collection recordID payload del (sys_client s i))) s)"
| Push: "x \<in> set (ops (c_db (sys_client s i))) \<Longrightarrow> op_device x = i \<Longrightarrow> dev_id dev = i \<Longrightarrow>
    step s (s\<lparr>sys_server := snd (push_op now dev (FromOplog x) (sys_server s))\<rparr>)"
| Mark: "set is \<subseteq> ids (sys_server s) \<Longrightarrow>
    step s (set_client i ((sys_client s i)\<lparr>c_db := snd (MarkPushed is (c_db (sys_client s i)))\<rparr>) s)"
| Pull: "x \<in> set (ops (sys_server s)) \<Longrightarrow> int64 (phys x) \<Longrightarrow>
    step s (set_client i (snd (pull_op phys now (FromOplog x) t (sys_client s i))) s)"
| Save: "0 \<le> n \<Longrightarrow> n \<le> int (length (ops (sys_server s))) \<Longrightarrow>
    op_id ` set (take (nat n) (ops (sys_server s))) \<subseteq> ids (c_db (sys_client s i)) \<Longrightarrow>
    step s (set_client i (snd (setCheckpoint n (sys_client s i))) s)"
| Enrol: "step s (s\<lparr>sys_server := snd (handleRegisterDevice sha (Inr buf) now (Inr req) (sys_server s))\<rparr>)"
| Token: "step s (set_client i ((sys_client s i)\<lparr>c_db := snd (SetKV kvDeviceToken t (c_db (sys_client s i)))\<rparr>) s)"

text \<open>Runs, with the number of their steps, from freshly opened clients and an empty server.\<close>

definition start_client :: "string \<Rightarrow> string \<Rightarrow> client" where
  "start_client url i = \<lparr>c_db = empty_db\<lparr>db_kv := fmupd kvDeviceID i fmempty\<rparr>, c_device = i,
     c_clock = NewClock i, c_base = url, c_policy = DefaultRetryPolicy\<rparr>"

definition start :: "string \<Rightarrow> system" where
  "start url = \<lparr>sys_client = start_client url, sys_server = empty_db\<rparr>"

lemma start_client_opened: "OpenClient None i url [] = (Inr (start_client url i), c_db (start_client url i))"
  by (simp add: OpenClient_def Open_def GetKV_def SetKV_def store_simps Let_def start_client_def)

inductive run :: "string \<Rightarrow> nat \<Rightarrow> system \<Rightarrow> bool" for url where
  Start: "run url 0 (start url)"
| Step: "run url n s \<Longrightarrow> step s s' \<Longrightarrow> run url (Suc n) s'"

section \<open>What every run keeps\<close>

text \<open>Counters are bounded by the number of steps, so that in a run of fewer than \<open>2 ^ 32 - 1\<close> steps
  none overflows.\<close>

definition op_ok :: "nat \<Rightarrow> op \<Rightarrow> bool" where
  "op_ok n x \<longleftrightarrow> Validate x = None \<and> op_payload x \<noteq> Some [] \<and> int64 (physical (op_hlc x))
     \<and> unat (logical (op_hlc x)) \<le> n \<and> (\<forall>m. unat (vget (op_vv x) m) \<le> n)
     \<and> 0 \<le> op_seq x \<and> op_seq x \<le> int n"

definition saved :: "db \<Rightarrow> db \<Rightarrow> bool" where
  "saved srv d \<longleftrightarrow>
     (\<exists>k. (case fmlookup (db_kv d) kvLastCheckpoint of None \<Rightarrow> Inr 0 | Some v \<Rightarrow> parse_int v) = Inr k
        \<and> 0 \<le> k \<and> k \<le> int (length (ops srv)) \<and> op_id ` set (take (nat k) (ops srv)) \<subseteq> ids d)"

text \<open>The server has all that is not in a device's outbox.\<close>

definition acked :: "db \<Rightarrow> string \<Rightarrow> db \<Rightarrow> bool" where
  "acked srv i d \<longleftrightarrow> (\<forall>r \<in> set (db_oplog d).
     op_device (row_op r) \<noteq> i \<or> row_pushed r \<longrightarrow> op_id (row_op r) \<in> ids srv)"

definition clock_ok :: "nat \<Rightarrow> clock \<Rightarrow> bool" where
  "clock_ok n c \<longleftrightarrow> int64 (physical (last_ts c)) \<and> unat (logical (last_ts c)) \<le> n"

definition client_ok :: "nat \<Rightarrow> db \<Rightarrow> string \<Rightarrow> client \<Rightarrow> bool" where
  "client_ok n srv i c \<longleftrightarrow> sound_db (c_db c) \<and> c_device c = i \<and> clock_node (c_clock c) = i
     \<and> clock_ok n (c_clock c) \<and> (\<forall>x \<in> set (ops (c_db c)). op_ok n x)
     \<and> acked srv i (c_db c) \<and> saved srv (c_db c)"

definition server_ok :: "nat \<Rightarrow> db \<Rightarrow> bool" where
  "server_ok n d \<longleftrightarrow> sound_db d \<and> dense_log d \<and> length (ops d) \<le> n \<and> (\<forall>x \<in> set (ops d). op_ok n x)"

definition logs :: "system \<Rightarrow> string \<Rightarrow> op set" where
  "logs s i = core ` set (ops (c_db (sys_client s i)))"

definition clocks :: "system \<Rightarrow> string \<Rightarrow> timestamp" where
  "clocks s i = last_ts (c_clock (sys_client s i))"

definition good :: "nat \<Rightarrow> system \<Rightarrow> bool" where
  "good n s \<longleftrightarrow> (\<forall>i. client_ok n (sys_server s) i (sys_client s i)) \<and> server_ok n (sys_server s)
     \<and> history (logs s) (clocks s) \<and> core ` set (ops (sys_server s)) \<subseteq> \<Union> (range (logs s))
     \<and> finite (\<Union> (range (logs s))) \<and> card (\<Union> (range (logs s))) \<le> n"

lemma goodD:
  assumes "good n s"
  shows "client_ok n (sys_server s) i (sys_client s i)" "server_ok n (sys_server s)"
    "history (logs s) (clocks s)" "core ` set (ops (sys_server s)) \<subseteq> \<Union> (range (logs s))"
    "finite (\<Union> (range (logs s)))" "card (\<Union> (range (logs s))) \<le> n"
  using assms by (simp_all add: good_def)

lemma op_ok_Suc: "op_ok n x \<Longrightarrow> op_ok (Suc n) x"
  by (auto simp: op_ok_def le_Suc_eq)

lemma clock_ok_Suc: "clock_ok n c \<Longrightarrow> clock_ok (Suc n) c"
  by (simp add: clock_ok_def)

lemma saved_grow: "saved srv d \<Longrightarrow> \<exists>xs. ops srv' = ops srv @ xs \<Longrightarrow> saved srv' d"
  unfolding saved_def by fastforce

lemma acked_grow: "acked srv i d \<Longrightarrow> ids srv \<subseteq> ids srv' \<Longrightarrow> acked srv' i d"
  unfolding acked_def by blast

lemma ids_grow: "\<exists>xs. ops srv' = ops srv @ xs \<Longrightarrow> ids srv \<subseteq> ids srv'"
  by (auto simp: ids_def)

lemma client_ok_grow:
  "client_ok n srv i c \<Longrightarrow> \<exists>xs. ops srv' = ops srv @ xs \<Longrightarrow> client_ok (Suc n) srv' i c"
  unfolding client_ok_def
  using op_ok_Suc clock_ok_Suc saved_grow [of srv "c_db c" srv'] acked_grow [OF _ ids_grow, of srv i "c_db c" srv']
  by blast

lemma server_ok_Suc: "server_ok n d \<Longrightarrow> server_ok (Suc n) d"
  by (auto simp: server_ok_def intro: op_ok_Suc)

lemma sound_db_empty: "sound_db empty_db"
  by (simp add: sound_db_def view_of_log_def fun_eq_iff)

lemma client_ok_start: "client_ok 0 empty_db i (start_client url i)"
  using sound_db_empty
  by (simp add: client_ok_def start_client_def NewClock_def clock_ok_def int64_def acked_def saved_def kvDeviceID_def kvLastCheckpoint_def)
    (simp add: empty_db_def)

lemma good_start: "good 0 (start url)"
proof -
  have l: "logs (start url) = (\<lambda>i. {})"
    by (simp add: logs_def start_def start_client_def fun_eq_iff)
  show ?thesis
    unfolding good_def l using client_ok_start history_empty sound_db_empty
    by (simp add: start_def server_ok_def)
qed

text \<open>Replacing one client and nothing else.\<close>

lemma set_client_simps [simp]:
  "sys_server (set_client i c s) = sys_server s"
  "sys_client (set_client i c s) j = (if j = i then c else sys_client s j)"
  by (simp_all add: set_client_def)

lemma logs_set_client: "logs (set_client i c s) = (logs s)(i := core ` set (ops (c_db c)))"
  by (simp add: logs_def fun_eq_iff)

lemma clocks_set_client: "clocks (set_client i c s) = (clocks s)(i := last_ts (c_clock c))"
  by (simp add: clocks_def fun_eq_iff)

lemma good_client:
  assumes "good n s" and "client_ok (Suc n) (sys_server s) i c"
    and "history ((logs s)(i := core ` set (ops (c_db c)))) ((clocks s)(i := last_ts (c_clock c)))"
    and "logs s i \<subseteq> core ` set (ops (c_db c))" and "core ` set (ops (c_db c)) \<subseteq> insert z (\<Union> (range (logs s)))"
  shows "good (Suc n) (set_client i c s)"
proof -
  have "\<Union> (range (logs s)) \<subseteq> \<Union> (range ((logs s)(i := core ` set (ops (c_db c)))))"
  proof
    fix x
    assume "x \<in> \<Union> (range (logs s))"
    then obtain j where "x \<in> logs s j" by blast
    with assms(4) have "x \<in> ((logs s)(i := core ` set (ops (c_db c)))) j" by auto
    then show "x \<in> \<Union> (range ((logs s)(i := core ` set (ops (c_db c)))))" by blast
  qed
  with goodD(4) [OF assms(1)]
  have "core ` set (ops (sys_server s)) \<subseteq> \<Union> (range ((logs s)(i := core ` set (ops (c_db c)))))"
    by blast
  moreover have "client_ok (Suc n) (sys_server s) j (sys_client s j)" for j
    by (rule client_ok_grow [OF goodD(1) [OF assms(1)]]) simp
  moreover have U: "\<Union> (range ((logs s)(i := core ` set (ops (c_db c))))) \<subseteq> insert z (\<Union> (range (logs s)))"
  proof
    fix x
    assume "x \<in> \<Union> (range ((logs s)(i := core ` set (ops (c_db c)))))"
    then obtain j where "x \<in> ((logs s)(i := core ` set (ops (c_db c)))) j" by blast
    then have "x \<in> core ` set (ops (c_db c)) \<or> x \<in> logs s j" by (simp split: if_splits)
    with assms(5) show "x \<in> insert z (\<Union> (range (logs s)))" by blast
  qed
  moreover have f: "finite (insert z (\<Union> (range (logs s))))" using goodD(5) [OF assms(1)] by blast
  moreover have "card (insert z (\<Union> (range (logs s)))) \<le> Suc n"
    using goodD(5,6) [OF assms(1)] by (simp only: card_insert_if split: if_split) linarith
  ultimately have "finite (\<Union> (range ((logs s)(i := core ` set (ops (c_db c))))))"
    "card (\<Union> (range ((logs s)(i := core ` set (ops (c_db c)))))) \<le> Suc n"
    by (blast intro: finite_subset, blast intro: le_trans card_mono)
  moreover note \<open>core ` set (ops (sys_server s)) \<subseteq> \<Union> (range ((logs s)(i := core ` set (ops (c_db c)))))\<close>
    \<open>\<And>j. client_ok (Suc n) (sys_server s) j (sys_client s j)\<close>
  ultimately show ?thesis
    using assms(2,3) server_ok_Suc [OF goodD(2) [OF assms(1)]]
    by (simp add: good_def logs_set_client clocks_set_client)
qed

text \<open>Bookkeeping that keeps log and clock.\<close>

lemma good_bookkeeping:
  assumes "good n s" and "client_ok (Suc n) (sys_server s) i c"
    and "ops (c_db c) = ops (c_db (sys_client s i))" and "c_clock c = c_clock (sys_client s i)"
  shows "good (Suc n) (set_client i c s)"
proof (rule good_client [OF assms(1,2), where z = opA])
  have "(logs s)(i := core ` set (ops (c_db c))) = logs s" "(clocks s)(i := last_ts (c_clock c)) = clocks s"
    using assms(3,4) by (simp_all add: fun_eq_iff logs_def clocks_def)
  then show "history ((logs s)(i := core ` set (ops (c_db c)))) ((clocks s)(i := last_ts (c_clock c)))"
    using goodD(3) [OF assms(1)] by simp
qed (auto simp: logs_def assms(3))

section \<open>Each step keeps it\<close>

lemma client_okD:
  assumes "client_ok n srv i c"
  shows "sound_db (c_db c)" "c_device c = i" "clock_node (c_clock c) = i" "clock_ok n (c_clock c)"
    "x \<in> set (ops (c_db c)) \<Longrightarrow> op_ok n x" "acked srv i (c_db c)" "saved srv (c_db c)"
    "db_faults (c_db c) = []"
  using assms by (simp_all add: client_ok_def sound_db_def)

lemma server_okD:
  assumes "server_ok n d"
  shows "sound_db d" "dense_log d" "length (ops d) \<le> n" "x \<in> set (ops d) \<Longrightarrow> op_ok n x" "db_faults d = []"
  using assms by (simp_all add: server_ok_def sound_db_def)

lemma accept_ops: "op_id x \<notin> ids d \<Longrightarrow> ops (accept now False x d) = ops d @ [x]"
  using accept_new(1) [of x d now False] by (simp add: ids_def)

lemma saved_accept: "saved srv d \<Longrightarrow> ids d \<subseteq> ids (accept now False x d) \<Longrightarrow> saved srv (accept now False x d)"
  unfolding saved_def by auto

lemma acked_accept: "acked srv i d \<Longrightarrow> op_device x = i \<or> op_id x \<in> ids srv \<Longrightarrow> acked srv i (accept now False x d)"
  by (cases "op_id x \<in> op_id ` set (ops d)") (auto simp: acked_def accept_known accept_oplog)

text \<open>A client that accepts one more operation.\<close>

lemma client_ok_accept:
  assumes c: "client_ok n srv i c" and x: "op_ok (Suc n) x" and k: "clock_ok (Suc n) clk" "clock_node clk = i"
    and at: "op_device x = i \<or> op_id x \<in> ids srv"
  shows "client_ok (Suc n) srv i (c\<lparr>c_db := accept now False x (c_db c), c_clock := clk\<rparr>)"
proof -
  let ?d = "accept now False x (c_db c)"
  have v: "Validate x = None" using x by (simp add: op_ok_def)
  obtain xs where p: "ops ?d = ops (c_db c) @ xs" using accept_prefix by blast
  have "set (ops ?d) \<subseteq> insert x (set (ops (c_db c)))"
    by (cases "op_id x \<in> op_id ` set (ops (c_db c))") (auto simp: accept_known accept_new(1))
  then have "\<forall>y \<in> set (ops ?d). op_ok (Suc n) y"
    using x client_okD(5) [OF c] op_ok_Suc by blast
  moreover have "ids (c_db c) \<subseteq> ids ?d" by (simp add: ids_def p image_Un)
  ultimately show ?thesis
    using client_okD [OF c] k accept_sound [OF client_okD(1) [OF c] v]
      saved_accept [OF client_okD(7) [OF c]] acked_accept [OF client_okD(6) [OF c] at]
    by (simp add: client_ok_def)
qed

lemma Now_ok: "clock_ok n c \<Longrightarrow> int64 phys \<Longrightarrow> clock_ok (Suc n) (snd (Now phys c))"
  by (auto simp: clock_ok_def Now_def Let_def unat_Suc_le)

lemma Observe_ok:
  "clock_ok n c \<Longrightarrow> int64 phys \<Longrightarrow> int64 (physical r) \<Longrightarrow> unat (logical r) \<le> n \<Longrightarrow>
    clock_ok (Suc n) (snd (Observe phys r c))"
  by (auto simp: clock_ok_def Observe_def Let_def int64_def unat_Suc_le max_def)

text \<open>A number of steps below which no counter overflows.\<close>

definition few :: "nat \<Rightarrow> bool" where
  "few n \<longleftrightarrow> n < 2 ^ 32 - 1"

lemma few_word: "few n \<Longrightarrow> unat (w :: 32 word) \<le> n \<Longrightarrow> w \<noteq> - 1"
  by (rule unat_not_max) (simp_all add: few_def)

lemma few_word64: "few n \<Longrightarrow> unat (w :: 64 word) \<le> n \<Longrightarrow> w \<noteq> - 1"
  by (rule unat_not_max [of _ n]) (simp_all add: few_def)

lemma few_mono: "few n \<Longrightarrow> m \<le> n \<Longrightarrow> few m"
  by (simp add: few_def)

lemma held_summary:
  assumes "good n s"
  shows "summary (ops_of_key (logs s i) k) (view (c_db (sys_client s i)) k)"
proof -
  have "causal_ops (ops_of_key (logs s i) k)"
    by (rule history_causal_ops [OF goodD(3) [OF assms]]) blast
  then show ?thesis
    using view_of_log_summary [of "ops (c_db (sys_client s i))" k]
      sound_dbD(3) [OF client_okD(1) [OF goodD(1) [OF assms]]]
    by (simp add: logs_def)
qed

lemma held_bound:
  assumes "good n s"
  shows "unat (vget (base_vector (view (c_db (sys_client s i)) k)) m) \<le> n"
proof (cases "vget (base_vector (view (c_db (sys_client s i)) k)) m = 0")
  case False
  then obtain w where "w \<in> ops_of_key (logs s i) k"
    "vget (base_vector (view (c_db (sys_client s i)) k)) m = vget (op_vv w) m"
    using base_attained [OF held_summary [OF assms]] by blast
  then show ?thesis
    using client_okD(5) [OF goodD(1) [OF assms]] by (auto simp: ops_of_key_def logs_def op_ok_def)
qed simp

lemma stored_base: "rec_vv (fst (stored k d)) = base_vector (view d k)"
  by (simp add: stored_def base_vector_def zero_record_def split: option.split)

lemma writable_good:
  assumes g: "good n s" and few: "few n"
    and names: "uuid \<noteq> []" "collection \<noteq> []" "recordID \<noteq> []" and payload: "del \<or> payload \<noteq> None"
    and fresh: "uuid \<notin> ids (c_db (sys_client s i))"
  shows "writable uuid collection recordID payload del (sys_client s i)"
proof -
  have "vget (base_vector (view (c_db (sys_client s i)) (collection, recordID))) i \<noteq> - 1"
    by (rule few_word64 [OF few held_bound [OF g]])
  then show ?thesis
    using names payload fresh client_okD(2) [OF goodD(1) [OF g]]
    by (simp add: writable_def ids_def stored_base)
qed

lemma sound_good: "good n s \<Longrightarrow> i \<noteq> [] \<Longrightarrow> sound (sys_client s i)"
  using client_okD(1-3) [OF goodD(1)] by (simp add: sound_def)

lemma write_later:
  assumes g: "good n s" and few: "few n"
  shows "clocks s i < op_hlc (write_op uuid phys collection recordID payload del (sys_client s i))"
proof -
  have "\<not> now_full phys (c_clock (sys_client s i))"
    using client_okD(4) [OF goodD(1) [OF g, of i]] few_word [OF few] by (auto simp: now_full_def clock_ok_def)
  then show ?thesis using Now_ticks ticks_before_less by (simp add: clocks_def)
qed

lemma good_write:
  assumes g: "good n s" and few: "few n" and i: "i \<noteq> []"
    and names: "uuid \<noteq> []" "collection \<noteq> []" "recordID \<noteq> []"
    and payload: "del \<or> payload \<noteq> None" "payload \<noteq> Some []" and phys: "int64 phys"
    and fresh: "\<And>j. uuid \<notin> ids (c_db (sys_client s j))"
  shows "good (Suc n) (set_client i
    (snd (applyLocalWrite uuid phys collection recordID payload del (sys_client s i))) s)"
proof -
  let ?c = "sys_client s i"
  define x where "x = write_op uuid phys collection recordID payload del ?c"
  define clk where "clk = snd (Now phys (c_clock ?c))"
  note c = goodD(1) [OF g, of i]
  have snd: "sound ?c" by (rule sound_good [OF g i])
  have nf: "vget (base_vector (view (c_db ?c) (collection, recordID))) i \<noteq> - 1"
    by (rule few_word64 [OF few held_bound [OF g]])
  have w: "writable uuid collection recordID payload del ?c"
    by (rule writable_good [OF g few names payload(1) fresh])
  have run: "snd (applyLocalWrite uuid phys collection recordID payload del ?c) =
      ?c\<lparr>c_db := accept (\<lambda>_. 0) False x (c_db ?c), c_clock := clk\<rparr>"
    using applyLocalWrite_ok [OF snd w x_def, of "\<lambda>_. 0"] by (simp add: clk_def)
  have k: "clock_ok (Suc n) clk" "clock_node clk = i"
    using Now_ok [OF client_okD(4) [OF c] phys] client_okD(3) [OF c] by (simp_all add: clk_def)
  have hlc: "op_hlc x = last_ts clk" by (simp add: x_def clk_def)
  have "unat (vget (op_vv x) m) \<le> Suc n" for m
    using held_bound [OF g, of i "(collection, recordID)" m] client_okD(2) [OF c]
    by (auto simp: x_def stored_base vget_Increment intro: unat_Suc_le)
  then have x: "op_ok (Suc n) x"
    using k(1) payload(2) write_op_valid [OF snd w, of phys] hlc
    by (simp add: op_ok_def clock_ok_def x_def)
  have log: "ops (accept (\<lambda>_. 0) False x (c_db ?c)) = ops (c_db ?c) @ [x]"
    using fresh by (intro accept_ops) (simp add: x_def)
  have "clocks s i < op_hlc x" unfolding x_def by (rule write_later [OF g few])
  moreover have "op_id x \<notin> op_id ` \<Union> (range (logs s))"
    using fresh by (auto simp: logs_def x_def ids_def image_iff)
  ultimately have fw: "fresh_write (logs s) (clocks s) i (core x) (view (c_db ?c) (op_key x))"
    using goodD(3) [OF g] held_summary [OF g, of i "op_key x"] nf client_okD(2,3) [OF c]
    by (simp add: fresh_write_def x_def stored_base)
  have "core ` set (ops (accept (\<lambda>_. 0) False x (c_db ?c))) = insert (core x) (logs s i)"
    by (simp add: log logs_def)
  then show ?thesis
    unfolding run
    using good_client [OF g client_ok_accept [OF c x k disjI1, where now = "\<lambda>_. 0"]] history_write [OF fw] hlc client_okD(2) [OF c]
    by (auto simp: x_def)
qed

lemma good_push:
  assumes g: "good n s" and x: "x \<in> set (ops (c_db (sys_client s i)))" "op_device x = i" "dev_id dev = i"
  shows "good (Suc n) (s\<lparr>sys_server := snd (push_op now dev (FromOplog x) (sys_server s))\<rparr>)"
proof -
  let ?d = "sys_server s"
  note srv = goodD(2) [OF g]
  have ok: "op_ok n x" using client_okD(5) [OF goodD(1) [OF g]] x(1) .
  then have v: "Validate x = None" by (simp add: op_ok_def)
  have "push_ready dev x ?d"
    using ready_sound [OF server_okD(1) [OF srv] v] x by (simp add: push_ready_def)
  then have push: "snd (push_op now dev (FromOplog x) ?d) = accept now True x ?d"
    by (simp add: push_op_accept)
  obtain xs where p: "ops (accept now True x ?d) = ops ?d @ xs" using accept_prefix by blast
  have new: "set (ops (accept now True x ?d)) \<subseteq> insert (x\<lparr>op_seq := db_next ?d\<rparr>) (set (ops ?d))"
    "length (ops (accept now True x ?d)) \<le> Suc (length (ops ?d))"
    by (cases "op_id x \<in> op_id ` set (ops ?d)"; simp add: accept_known accept_new(1) subset_insertI)+
  have "op_ok (Suc n) (x\<lparr>op_seq := db_next ?d\<rparr>)"
    using ok server_okD(2,3) [OF srv] by (auto simp: op_ok_def dense_log_def le_Suc_eq)
  with new server_okD [OF srv] have "server_ok (Suc n) (accept now True x ?d)"
    using accept_sound [OF server_okD(1) [OF srv] v] accept_dense [OF server_okD(2) [OF srv]] op_ok_Suc
    by (auto simp: server_ok_def)
  moreover have "core ` set (ops (accept now True x ?d)) \<subseteq> \<Union> (range (logs s))"
  proof -
    have "core x \<in> logs s i" using x(1) by (simp add: logs_def)
    then show ?thesis using new(1) goodD(4) [OF g] by fastforce
  qed
  moreover have "client_ok (Suc n) (accept now True x ?d) j (sys_client s j)" for j
    by (rule client_ok_grow [OF goodD(1) [OF g]]) (simp add: p)
  moreover have "logs (s\<lparr>sys_server := e\<rparr>) = logs s" "clocks (s\<lparr>sys_server := e\<rparr>) = clocks s" for e
    by (simp_all add: logs_def clocks_def fun_eq_iff)
  ultimately show ?thesis using goodD(3,5,6) [OF g] by (simp add: good_def push)
qed

lemma good_pull:
  assumes g: "good n s" and few: "few n" and x: "x \<in> set (ops (sys_server s))" and phys: "int64 (phys x)"
  shows "good (Suc n) (set_client i (snd (pull_op phys now (FromOplog x) t (sys_client s i))) s)"
proof -
  let ?c = "sys_client s i"
  let ?clk = "snd (Observe (phys x) (op_hlc x) (c_clock ?c))"
  note c = goodD(1) [OF g, of i]
  have ok: "op_ok n x" by (rule server_okD(4) [OF goodD(2) [OF g] x])
  then have w: "ToOplog (FromOplog x) = Inr x" by (intro ToOplog_FromOplog) (simp add: op_ok_def)
  have pull: "snd (pull_op phys now (FromOplog x) t ?c) =
      ?c\<lparr>c_db := accept now False x (c_db ?c), c_clock := ?clk\<rparr>"
    by (simp add: pull_op_ok [OF client_okD(8) [OF c] w])
  have k: "clock_ok (Suc n) ?clk" "clock_node ?clk = i"
    using Observe_ok [OF client_okD(4) [OF c] phys] ok client_okD(3) [OF c]
    by (simp_all add: op_ok_def)
  have "\<not> observe_full (phys x) (op_hlc x) (c_clock ?c)"
    using ok client_okD(4) [OF c] few_word [OF few]
    by (auto simp: observe_full_def clock_ok_def op_ok_def Let_def)
  note ticks = Observe_ticks [OF this]
  obtain j where j: "core x \<in> logs s j" using goodD(4) [OF g] x by blast
  have "history ((logs s)(i := insert (core x) (logs s i))) ((clocks s)(i := last_ts ?clk))"
    by (rule history_deliver [OF goodD(3) [OF g] j])
      (use ticks ticks_before_less in \<open>auto simp: clocks_def intro: less_imp_le\<close>)
  moreover have "core ` set (ops (accept now False x (c_db ?c))) = insert (core x) (logs s i)"
  proof (cases "op_id x \<in> op_id ` set (ops (c_db ?c))")
    case True
    then obtain y where y: "y \<in> set (ops (c_db ?c))" "op_id y = op_id x" by auto
    then have held: "core y \<in> logs s i" by (simp add: logs_def)
    then have "core y = core x" using historyD(4) [OF goodD(3) [OF g] _ j] y(2) by simp
    with held True show ?thesis by (simp add: accept_known logs_def insert_absorb)
  qed (auto simp: accept_new(1) logs_def)
  ultimately show ?thesis
    unfolding pull
    using good_client [OF g client_ok_accept [OF c op_ok_Suc [OF ok] k disjI2, where now = now]] x by (auto simp: ids_def)
qed

lemma client_ok_kv:
  assumes "client_ok n srv i c" and "saved srv ((c_db c)\<lparr>db_kv := m\<rparr>)"
  shows "client_ok (Suc n) srv i (c\<lparr>c_db := (c_db c)\<lparr>db_kv := m\<rparr>\<rparr>)"
  using client_okD [OF assms(1)] assms(2) op_ok_Suc clock_ok_Suc
  by (auto simp: client_ok_def acked_def)

lemma saved_kv_other: "saved srv d \<Longrightarrow> k \<noteq> kvLastCheckpoint \<Longrightarrow> saved srv (d\<lparr>db_kv := fmupd k v (db_kv d)\<rparr>)"
  by (simp add: saved_def ids_def)

lemma good_save:
  assumes g: "good n s" and few: "few n" and k: "0 \<le> k" "k \<le> int (length (ops (sys_server s)))"
    "op_id ` set (take (nat k) (ops (sys_server s))) \<subseteq> ids (c_db (sys_client s i))"
  shows "good (Suc n) (set_client i (snd (setCheckpoint k (sys_client s i))) s)"
proof -
  let ?c = "sys_client s i"
  note c = goodD(1) [OF g, of i]
  have run: "snd (setCheckpoint k ?c) =
      ?c\<lparr>c_db := (c_db ?c)\<lparr>db_kv := fmupd kvLastCheckpoint (format_int k) (db_kv (c_db ?c))\<rparr>\<rparr>"
    by (simp add: setCheckpoint_def with_db_def SetKV_def store_simps client_okD(8) [OF c])
  have "k < 2 ^ 63"
    using k(2) server_okD(3) [OF goodD(2) [OF g]] few by (simp add: few_def)
  with k(1) have "parse_int (format_int k) = Inr k" by (intro parse_format_int) simp_all
  with k have "saved (sys_server s) ((c_db ?c)\<lparr>db_kv := fmupd kvLastCheckpoint (format_int k) (db_kv (c_db ?c))\<rparr>)"
    by (simp add: saved_def ids_def)
  from client_ok_kv [OF c this] show ?thesis
    unfolding run by (intro good_bookkeeping [OF g]) simp_all
qed

lemma good_token:
  assumes g: "good n s"
  shows "good (Suc n) (set_client i
    ((sys_client s i)\<lparr>c_db := snd (SetKV kvDeviceToken t (c_db (sys_client s i)))\<rparr>) s)"
proof -
  let ?c = "sys_client s i"
  note c = goodD(1) [OF g, of i]
  have run: "snd (SetKV kvDeviceToken t (c_db ?c)) =
      (c_db ?c)\<lparr>db_kv := fmupd kvDeviceToken t (db_kv (c_db ?c))\<rparr>"
    by (simp add: SetKV_def store_simps client_okD(8) [OF c])
  have "kvDeviceToken \<noteq> kvLastCheckpoint" by (simp add: kvDeviceToken_def kvLastCheckpoint_def)
  from client_ok_kv [OF c saved_kv_other [OF client_okD(7) [OF c] this]]
  show ?thesis unfolding run by (intro good_bookkeeping [OF g]) simp_all
qed

lemma good_mark:
  assumes g: "good n s" and acc: "set is \<subseteq> ids (sys_server s)"
  shows "good (Suc n) (set_client i
    ((sys_client s i)\<lparr>c_db := snd (MarkPushed is (c_db (sys_client s i)))\<rparr>) s)"
proof -
  let ?c = "sys_client s i"
  let ?d = "snd (MarkPushed is (c_db ?c))"
  note c = goodD(1) [OF g, of i]
  note m = MarkPushed_ok [OF client_okD(8) [OF c], of "is"]
  have o: "ops ?d = ops (c_db ?c)" "db_kv ?d = db_kv (c_db ?c)" "sound_db ?d"
    using client_okD(1) [OF c] by (simp_all add: m)
  have "acked (sys_server s) i ?d"
    using client_okD(6) [OF c] acc by (auto simp: acked_def m)
  moreover have "saved (sys_server s) ?d"
    using client_okD(7) [OF c] by (simp add: saved_def o ids_def)
  ultimately have "client_ok (Suc n) (sys_server s) i (?c\<lparr>c_db := ?d\<rparr>)"
    using client_okD [OF c] o op_ok_Suc clock_ok_Suc by (auto simp: client_ok_def)
  then show ?thesis by (intro good_bookkeeping [OF g]) (simp_all add: o)
qed

lemma register_frame: "\<exists>v. snd (handleRegisterDevice sha (Inr buf) now (Inr req) d) =
    (if db_faults d = [] then d\<lparr>db_devices := v\<rparr> else snd (handleRegisterDevice sha (Inr buf) now (Inr req) d))"
proof (cases "db_faults d = []")
  case True
  then have "snd (handleRegisterDevice sha (Inr buf) now (Inr req) d) = d \<or>
    snd (handleRegisterDevice sha (Inr buf) now (Inr req) d) = registered sha buf now req d"
    using handleRegisterDevice_ok [OF True, of req sha buf now]
    by (auto simp: handleRegisterDevice_def)
  moreover have "\<exists>v. d = d\<lparr>db_devices := v\<rparr>" by (rule exI [of _ "db_devices d"]) simp
  ultimately show ?thesis using True by (auto simp: registered_def)
qed simp

lemma good_enrol:
  assumes g: "good n s"
  shows "good (Suc n) (s\<lparr>sys_server := snd (handleRegisterDevice sha (Inr buf) now (Inr req) (sys_server s))\<rparr>)"
proof -
  let ?d = "sys_server s"
  obtain v where run: "snd (handleRegisterDevice sha (Inr buf) now (Inr req) ?d) = ?d\<lparr>db_devices := v\<rparr>"
    using register_frame [of sha buf now req ?d] server_okD(5) [OF goodD(2) [OF g]] by auto
  have "server_ok (Suc n) (?d\<lparr>db_devices := v\<rparr>)"
    using server_ok_Suc [OF goodD(2) [OF g]]
    by (simp add: server_ok_def sound_db_def keyed_def view_def dense_log_def fun_eq_iff)
  moreover have "client_ok (Suc n) (?d\<lparr>db_devices := v\<rparr>) j (sys_client s j)" for j
    by (rule client_ok_grow [OF goodD(1) [OF g]]) simp
  moreover have "logs (s\<lparr>sys_server := e\<rparr>) = logs s" "clocks (s\<lparr>sys_server := e\<rparr>) = clocks s" for e
    by (simp_all add: logs_def clocks_def fun_eq_iff)
  ultimately show ?thesis using goodD(3-6) [OF g] by (simp add: good_def run)
qed

lemma good_step: "step s s' \<Longrightarrow> good n s \<Longrightarrow> few n \<Longrightarrow> good (Suc n) s'"
proof (induction rule: step.induct)
  case (Write i uuid collection recordID del payload phys s)
  then show ?case by (intro good_write)
next
  case (Push x s i dev now)
  then show ?case by (intro good_push)
next
  case (Mark "is" s i)
  then show ?case by (intro good_mark)
next
  case (Pull x s phys i now t)
  then show ?case by (intro good_pull)
next
  case (Save k s i)
  then show ?case by (intro good_save)
next
  case (Enrol s sha buf now req)
  then show ?case by (intro good_enrol)
next
  case (Token s i t)
  then show ?case by (intro good_token)
qed

lemma run_good: "run url n s \<Longrightarrow> few n \<Longrightarrow> good n s"
proof (induction rule: run.induct)
  case Start
  show ?case by (rule good_start)
next
  case (Step n s s')
  then have "few n" by (auto intro: few_mono)
  with Step show ?case by (blast intro: good_step)
qed

section \<open>Convergence\<close>

definition stores :: "system \<Rightarrow> db set" where
  "stores s = insert (sys_server s) (range (\<lambda>i. c_db (sys_client s i)))"

lemma store_cores:
  assumes "good n s" and "d \<in> stores s"
  shows "core ` set (ops d) \<subseteq> \<Union> (range (logs s))" "view d = view_of_log (ops d)"
  using assms(2) goodD(4) [OF assms(1)] sound_dbD(3) [OF server_okD(1) [OF goodD(2) [OF assms(1)]]]
    sound_dbD(3) [OF client_okD(1) [OF goodD(1) [OF assms(1)]]]
  by (auto simp: stores_def logs_def)

lemma cores_of_ids:
  assumes g: "good n s" and d: "d \<in> stores s" "e \<in> stores s" and "ids d \<subseteq> ids e"
  shows "core ` set (ops d) \<subseteq> core ` set (ops e)"
proof
  fix z
  assume "z \<in> core ` set (ops d)"
  then obtain x where x: "x \<in> set (ops d)" "z = core x" by blast
  have "op_id x \<in> op_id ` set (ops e)"
    using subsetD [OF assms(4), of "op_id x"] x(1) by (simp add: ids_def)
  then obtain y where y: "y \<in> set (ops e)" "op_id y = op_id x" by auto
  have "core x \<in> \<Union> (range (logs s))" "core y \<in> \<Union> (range (logs s))"
    by (rule subsetD [OF store_cores(1) [OF g]], rule d, use x y in simp)+
  then obtain i j where "core x \<in> logs s i" "core y \<in> logs s j" by blast
  then have "core x = core y" using historyD(4) [OF goodD(3) [OF g]] y(2) by simp
  with x y show "z \<in> core ` set (ops e)" by blast
qed

lemma same_ids_same_view:
  assumes g: "good n s" and d: "d \<in> stores s" "e \<in> stores s" and "ids d = ids e"
  shows "view d = view e"
proof -
  have "core ` set (ops d) = core ` set (ops e)"
    using cores_of_ids [OF g d] cores_of_ids [OF g d(2,1)] assms(4) by blast
  moreover have "causal_ops (ops_of_key (core ` set (ops d)) k)" for k
    by (rule history_causal_ops [OF goodD(3) [OF g] store_cores(1) [OF g d(1)]])
  ultimately show ?thesis
    using view_of_log_set [of "ops d" "ops e"] store_cores(2) [OF g] d by simp
qed

lemma store_latest:
  assumes g: "good n s" and d: "d \<in> stores s" and r: "view d k = Some r"
  shows "\<exists>w \<in> set (ops d). op_key w = k \<and> r = (fromOp w)\<lparr>rec_vv := rec_vv r\<rparr>
    \<and> (\<forall>x \<in> set (ops d). op_key x = k \<longrightarrow> op_hlc x \<le> op_hlc w
         \<and> (\<forall>m. vget (op_vv x) m \<le> vget (rec_vv r) m))"
proof -
  let ?S = "ops_of_key (core ` set (ops d)) k"
  have "causal_ops ?S" by (rule history_causal_ops [OF goodD(3) [OF g] store_cores(1) [OF g d]])
  then have s: "summarises ?S r"
    using view_of_log_summary [of "ops d" k] store_cores(2) [OF g d] r by (simp add: summary_def)
  obtain z where z: "z \<in> ?S" "r = (fromOp z)\<lparr>rec_vv := rec_vv r\<rparr>" "\<forall>x \<in> ?S. op_hlc x \<le> op_hlc z"
    by (rule summarisesE [OF s]) blast
  then obtain w where w: "w \<in> set (ops d)" "z = core w" "op_key w = k" by (auto simp: ops_of_key_def)
  have "core x \<in> ?S" if "x \<in> set (ops d)" "op_key x = k" for x
    using that by (simp add: ops_of_key_def)
  then have "\<forall>x \<in> set (ops d). op_key x = k \<longrightarrow> op_hlc x \<le> op_hlc w
      \<and> (\<forall>m. vget (op_vv x) m \<le> vget (rec_vv r) m)"
    using z(3) w(2) summarises_upper [OF s] by fastforce
  moreover have "fromOp z = fromOp w" by (simp add: w(2) fromOp_def)
  ultimately show ?thesis using z(2) w by auto
qed

lemma good_well_formed:
  assumes g: "good n s" and d: "d \<in> stores s"
  shows "keyed d \<and> distinct (map op_id (ops d)) \<and> view d = view_of_log (ops d)
    \<and> (\<forall>x \<in> set (ops d). Validate x = None)"
proof -
  have "sound_db d \<and> (\<forall>x \<in> set (ops d). op_ok n x)"
    using d server_okD(1,4) [OF goodD(2) [OF g]] client_okD(1,5) [OF goodD(1) [OF g]]
    by (auto simp: stores_def)
  then show ?thesis by (auto simp: sound_db_def op_ok_def)
qed

text \<open>C7: In every run every store is well formed: records stand under their own keys, no operation id
  is twice in the log, every logged operation is valid, and the records are the fold of the log;
  the server's checkpoints are 1, 2, 3 and so on.\<close>

theorem run_well_formed:
  assumes "run url n s" and "n < 2 ^ 32 - 1" and "d \<in> stores s"
  shows "keyed d \<and> distinct (map op_id (ops d)) \<and> view d = view_of_log (ops d)
    \<and> (\<forall>x \<in> set (ops d). Validate x = None) \<and> dense_log (sys_server s)"
  using good_well_formed [OF run_good [OF assms(1)] assms(3)] server_okD(2) [OF goodD(2) [OF run_good [OF assms(1)]]]
    assms(2) by (simp add: few_def)

text \<open>C1: In every run of the system, however writes, pushes and pulls interleave and whatever is
  cut off, lost or repeated, two replicas (devices or the server) that hold operations with the
  same ids hold identical records.\<close>

theorem replicas_converge:
  assumes "run url n s" and "n < 2 ^ 32 - 1" and "d \<in> stores s" and "e \<in> stores s"
    and "op_id ` set (ops d) = op_id ` set (ops e)"
  shows "view d = view e"
  using same_ids_same_view [OF run_good [OF assms(1)] assms(3,4)] assms(2,5)
  by (simp add: few_def ids_def)


subsection \<open>A run\<close>

lemma sound_start: "i \<noteq> [] \<Longrightarrow> sound (start_client url i)"
  using client_okD(1-3) [OF client_ok_start [of i url]] by (simp add: sound_def)

lemma writable_start:
  "uuid \<noteq> [] \<Longrightarrow> c \<noteq> [] \<Longrightarrow> r \<noteq> [] \<Longrightarrow> payload \<noteq> None \<Longrightarrow>
   writable uuid c r payload del (start_client url i)"
  by (simp add: writable_def start_client_def stored_base view_def)
    (simp add: empty_db_def base_vector_def)

text \<open>One device writes and pushes.\<close>

lemma run_example:
  "\<exists>s x. run url 2 s \<and> ops (sys_server s) = [x\<lparr>op_seq := 1\<rparr>]
     \<and> ops (c_db (sys_client s ''device-a'')) = [x] \<and> op_key x = (''notes'', ''note-1'')
     \<and> op_hlc x = Timestamp 7 0 ''device-a''"
proof -
  let ?c = "start_client url ''device-a''"
  define x where "x = write_op ''op-1'' 7 ''notes'' ''note-1'' (Some ''1'') False ?c"
  have snd: "sound ?c" by (rule sound_start) simp
  have w: "writable ''op-1'' ''notes'' ''note-1'' (Some ''1'') False ?c" by (rule writable_start) simp_all
  define s1 where "s1 = set_client ''device-a''
    (snd (applyLocalWrite ''op-1'' 7 ''notes'' ''note-1'' (Some ''1'') False (sys_client (start url) ''device-a'')))
    (start url)"
  define s2 where "s2 = s1\<lparr>sys_server := snd (push_op (\<lambda>_. 0) device_a (FromOplog x) (sys_server s1))\<rparr>"
  have "step (start url) s1"
    unfolding s1_def by (rule step.Write) (simp_all add: int64_def start_def start_client_def ids_def)
  then have 1: "run url 1 s1" using run.Step [OF run.Start] by simp
  have c1: "sys_client s1 ''device-a'' = ?c\<lparr>c_db := accept (\<lambda>_. 0) False x (c_db ?c), c_clock := snd (Now 7 (c_clock ?c))\<rparr>"
    using applyLocalWrite_ok [OF snd w x_def, of "\<lambda>_. 0"] by (simp add: s1_def start_def)
  have l1: "ops (c_db (sys_client s1 ''device-a'')) = [x]"
    using accept_ops [of x "c_db ?c" "\<lambda>_. 0"] by (simp add: c1) (simp add: start_client_def ids_def)
  have "step s1 s2"
    unfolding s2_def by (rule step.Push [where i = "''device-a''"])
      (simp_all add: l1 device_a_def, simp add: x_def start_client_def)
  then have "run url (Suc 1) s2" by (rule run.Step [OF 1])
  moreover have "ops (sys_server s2) = [x\<lparr>op_seq := 1\<rparr>]"
  proof -
    have "push_ready device_a x empty_db"
      using write_op_valid [OF snd w, of 7] sound_db_empty
      by (simp add: push_ready_def x_def ready_sound device_a_def) (simp add: start_client_def)
    then show ?thesis
      using accept_new(1) [of x empty_db "\<lambda>_. 0" True]
      by (simp add: s2_def s1_def start_def push_op_accept)
  qed
  moreover have "op_key x = (''notes'', ''note-1'')" "op_hlc x = Timestamp 7 0 ''device-a''"
    by (simp_all add: x_def) (simp add: start_client_def Now_def NewClock_def Let_def)
  moreover have "sys_client s2 = sys_client s1" by (simp add: s2_def)
  ultimately show ?thesis using l1 by (intro exI [of _ s2] exI [of _ x]) (simp add: numeral_2_eq_2)
qed

theorem run_well_formed_witness:
  "\<exists>s. run ''http://s'' 2 s \<and> ops (sys_server s) \<noteq> []
     \<and> keyed (sys_server s) \<and> view (sys_server s) = view_of_log (ops (sys_server s))"
proof -
  obtain s x where s: "run ''http://s'' 2 s" "ops (sys_server s) = [x\<lparr>op_seq := 1\<rparr>]"
    using run_example by blast
  have "(2 :: nat) < 2 ^ 32 - 1" "sys_server s \<in> stores s" by (simp_all add: stores_def)
  from run_well_formed [OF s(1) this] s show ?thesis by (intro exI [of _ s]) simp
qed

theorem replicas_converge_witness:
  "\<exists>s. run ''http://s'' 2 s \<and> ops (sys_server s) \<noteq> []
     \<and> view (sys_server s) = view (c_db (sys_client s ''device-a''))"
proof -
  obtain s x where s: "run ''http://s'' 2 s" "ops (sys_server s) = [x\<lparr>op_seq := 1\<rparr>]"
    "ops (c_db (sys_client s ''device-a'')) = [x]"
    using run_example by blast
  have "view (sys_server s) = view (c_db (sys_client s ''device-a''))"
    by (rule replicas_converge [OF s(1)]) (simp_all add: stores_def s(2,3))
  then show ?thesis using s(1,2) by (intro exI [of _ s]) simp
qed


end
