(* ===== verification/WireJson.thy ===== *)
theory WireJson
  imports WireApi
begin

text \<open>
  The JSON form of the bodies of \<open>pkg/api/api.go\<close>: the structs' field tags with what
  \<open>encoding/json\<close> does with them, on JSON trees. The text of a tree is \<open>encoding/json\<close>'s.
\<close>

section \<open>Trees\<close>

text \<open>
  \<open>JRaw\<close> is a value kept as its text, which is what a \<open>json.RawMessage\<close> holds: parsing a body
  leaves the values at the places of raw messages as \<open>JRaw\<close>. Numbers are integers: no body has
  another. Strings are valid UTF-8, which the encoder leaves as it is.
\<close>

datatype json =
    JNull
  | JBool bool
  | JNum int
  | JStr string
  | JArr "json list"
  | JObj "(string \<times> json) list"
  | JRaw string

fun bnd :: "'e + 'a \<Rightarrow> ('a \<Rightarrow> 'e + 'b) \<Rightarrow> 'e + 'b" where
  "bnd (Inl e) f = Inl e"
| "bnd (Inr x) f = f x"

text \<open>The text of an \<open>UnmarshalTypeError\<close>, without the names of field and type.\<close>

definition mismatch :: string where
  "mismatch = ''json: cannot unmarshal value''"

text \<open>
  Decoding: \<open>null\<close> leaves a value at its zero, a repeated key takes the last value that is not
  \<open>null\<close>, unknown keys are skipped, and a number must fit its type.
\<close>

fun field_from :: "json \<Rightarrow> string \<Rightarrow> (string \<times> json) list \<Rightarrow> json" where
  "field_from j k [] = j"
| "field_from j k ((k', v) # kvs) = field_from (if k = k' \<and> v \<noteq> JNull then v else j) k kvs"

abbreviation field :: "string \<Rightarrow> (string \<times> json) list \<Rightarrow> json" where
  "field \<equiv> field_from JNull"

fun dec_struct :: "json \<Rightarrow> string + (string \<times> json) list" where
  "dec_struct JNull = Inr []"
| "dec_struct (JObj kvs) = Inr kvs"
| "dec_struct j = Inl mismatch"

fun dec_string :: "json \<Rightarrow> string + string" where
  "dec_string JNull = Inr []"
| "dec_string (JStr s) = Inr s"
| "dec_string j = Inl mismatch"

fun dec_bool :: "json \<Rightarrow> string + bool" where
  "dec_bool JNull = Inr False"
| "dec_bool (JBool b) = Inr b"
| "dec_bool j = Inl mismatch"

fun dec_int :: "int \<Rightarrow> int \<Rightarrow> json \<Rightarrow> string + int" where
  "dec_int lo hi JNull = Inr 0"
| "dec_int lo hi (JNum n) = (if lo \<le> n \<and> n < hi then Inr n else Inl mismatch)"
| "dec_int lo hi j = Inl mismatch"

definition dec_int64 :: "json \<Rightarrow> string + int" where
  "dec_int64 = dec_int (- (2 ^ 63)) (2 ^ 63)"

definition dec_uint :: "nat \<Rightarrow> json \<Rightarrow> string + 'a::len word" where
  "dec_uint w j = bnd (dec_int 0 (2 ^ w) j) (\<lambda>n. Inr (word_of_int n))"

fun dec_raw :: "json \<Rightarrow> string + string option" where
  "dec_raw JNull = Inr None"
| "dec_raw (JRaw t) = Inr (Some t)"
| "dec_raw j = Inl mismatch"

fun dec_all :: "(json \<Rightarrow> string + 'a) \<Rightarrow> json list \<Rightarrow> string + 'a list" where
  "dec_all dec [] = Inr []"
| "dec_all dec (j # js) = bnd (dec j) (\<lambda>x. bnd (dec_all dec js) (\<lambda>xs. Inr (x # xs)))"

fun dec_list :: "(json \<Rightarrow> string + 'a) \<Rightarrow> json \<Rightarrow> string + 'a list" where
  "dec_list dec JNull = Inr []"
| "dec_list dec (JArr js) = dec_all dec js"
| "dec_list dec j = Inl mismatch"

fun dec_counters :: "(string \<times> json) list \<Rightarrow> vector \<Rightarrow> string + vector" where
  "dec_counters [] v = Inr v"
| "dec_counters ((k, j) # kvs) v = bnd (dec_uint 64 j) (\<lambda>n. dec_counters kvs (fmupd k n v))"

definition dec_vector :: "json \<Rightarrow> string + vector" where
  "dec_vector j = bnd (dec_struct j) (\<lambda>kvs. dec_counters kvs fmempty)"

text \<open>A field left out by \<open>omitempty\<close>.\<close>

definition omitempty :: "bool \<Rightarrow> string \<Rightarrow> json \<Rightarrow> (string \<times> json) list" where
  "omitempty zero k j = (if zero then [] else [(k, j)])"

definition enc_payload :: "string option \<Rightarrow> (string \<times> json) list" where
  "enc_payload p = omitempty (p = None \<or> p = Some []) ''payload'' (case p of None \<Rightarrow> JNull | Some t \<Rightarrow> JRaw t)"

definition enc_vector :: "vector \<Rightarrow> json" where
  "enc_vector v = JObj (map (\<lambda>(k, n). (k, JNum (uint n))) (sorted_list_of_fmap v))"

section \<open>Bodies\<close>

definition enc_hlc :: "wire_hlc \<Rightarrow> json" where
  "enc_hlc h = JObj [(''physical'', JNum (wh_physical h)), (''logical'', JNum (uint (wh_logical h))),
     (''node_id'', JStr (wh_node h))]"

definition dec_hlc :: "json \<Rightarrow> string + wire_hlc" where
  "dec_hlc j =
     bnd (dec_struct j) (\<lambda>kvs.
     bnd (dec_int64 (field ''physical'' kvs)) (\<lambda>p.
     bnd (dec_uint 32 (field ''logical'' kvs)) (\<lambda>l.
     bnd (dec_string (field ''node_id'' kvs)) (\<lambda>n.
       Inr \<lparr>wh_physical = p, wh_logical = l, wh_node = n\<rparr>))))"

definition enc_op :: "wire_op \<Rightarrow> json" where
  "enc_op w = JObj ([(''id'', JStr (wo_id w)), (''device_id'', JStr (wo_device w)),
     (''collection'', JStr (wo_collection w)), (''record_id'', JStr (wo_record w)),
     (''type'', JStr (wo_type w))]
     @ enc_payload (wo_payload w)
     @ [(''version_vector'', enc_vector (wo_vv w)), (''hlc'', enc_hlc (wo_hlc w))]
     @ omitempty (wo_seq w = 0) ''server_seq'' (JNum (wo_seq w)))"

definition dec_op :: "json \<Rightarrow> string + wire_op" where
  "dec_op j =
     bnd (dec_struct j) (\<lambda>kvs.
     bnd (dec_string (field ''id'' kvs)) (\<lambda>i.
     bnd (dec_string (field ''device_id'' kvs)) (\<lambda>dev.
     bnd (dec_string (field ''collection'' kvs)) (\<lambda>col.
     bnd (dec_string (field ''record_id'' kvs)) (\<lambda>rid.
     bnd (dec_string (field ''type'' kvs)) (\<lambda>t.
     bnd (dec_raw (field ''payload'' kvs)) (\<lambda>p.
     bnd (dec_vector (field ''version_vector'' kvs)) (\<lambda>v.
     bnd (dec_hlc (field ''hlc'' kvs)) (\<lambda>h.
     bnd (dec_int64 (field ''server_seq'' kvs)) (\<lambda>s.
       Inr \<lparr>wo_id = i, wo_device = dev, wo_collection = col, wo_record = rid, wo_type = t,
            wo_payload = p, wo_vv = v, wo_hlc = h, wo_seq = s\<rparr>))))))))))"

definition enc_register_request :: "register_request \<Rightarrow> json" where
  "enc_register_request r =
     JObj [(''device_id'', JStr (rq_device r)), (''device_name'', JStr (rq_name r))]"

definition dec_register_request :: "json \<Rightarrow> string + register_request" where
  "dec_register_request j =
     bnd (dec_struct j) (\<lambda>kvs.
     bnd (dec_string (field ''device_id'' kvs)) (\<lambda>i.
     bnd (dec_string (field ''device_name'' kvs)) (\<lambda>n. Inr \<lparr>rq_device = i, rq_name = n\<rparr>)))"

definition enc_register_response :: "register_response \<Rightarrow> json" where
  "enc_register_response r =
     JObj [(''device_id'', JStr (rs_device r)), (''device_token'', JStr (rs_token r))]"

definition dec_register_response :: "json \<Rightarrow> string + register_response" where
  "dec_register_response j =
     bnd (dec_struct j) (\<lambda>kvs.
     bnd (dec_string (field ''device_id'' kvs)) (\<lambda>i.
     bnd (dec_string (field ''device_token'' kvs)) (\<lambda>t. Inr \<lparr>rs_device = i, rs_token = t\<rparr>)))"

definition enc_push_request :: "wire_op list \<Rightarrow> json" where
  "enc_push_request ws = JObj [(''ops'', JArr (map enc_op ws))]"

definition dec_push_request :: "json \<Rightarrow> string + wire_op list" where
  "dec_push_request j = bnd (dec_struct j) (\<lambda>kvs. dec_list dec_op (field ''ops'' kvs))"

definition enc_conflict :: "conflict_info \<Rightarrow> json" where
  "enc_conflict i = JObj [(''collection'', JStr (ci_collection i)), (''record_id'', JStr (ci_record i)),
     (''winning_op_id'', JStr (ci_winner i)), (''losing_op_id'', JStr (ci_loser i))]"

definition dec_conflict :: "json \<Rightarrow> string + conflict_info" where
  "dec_conflict j =
     bnd (dec_struct j) (\<lambda>kvs.
     bnd (dec_string (field ''collection'' kvs)) (\<lambda>c.
     bnd (dec_string (field ''record_id'' kvs)) (\<lambda>r.
     bnd (dec_string (field ''winning_op_id'' kvs)) (\<lambda>w.
     bnd (dec_string (field ''losing_op_id'' kvs)) (\<lambda>l.
       Inr \<lparr>ci_collection = c, ci_record = r, ci_winner = w, ci_loser = l\<rparr>)))))"

text \<open>A nil slice of conflicts is \<open>null\<close>; the list of accepted ids is never nil.\<close>

definition enc_push_response :: "push_response \<Rightarrow> json" where
  "enc_push_response r = JObj [(''accepted'', JArr (map JStr (pr_accepted r))),
     (''conflicts'', if pr_conflicts r = [] then JNull else JArr (map enc_conflict (pr_conflicts r))),
     (''server_checkpoint'', JNum (pr_checkpoint r))]"

definition dec_push_response :: "json \<Rightarrow> string + push_response" where
  "dec_push_response j =
     bnd (dec_struct j) (\<lambda>kvs.
     bnd (dec_list dec_string (field ''accepted'' kvs)) (\<lambda>a.
     bnd (dec_list dec_conflict (field ''conflicts'' kvs)) (\<lambda>c.
     bnd (dec_int64 (field ''server_checkpoint'' kvs)) (\<lambda>s.
       Inr \<lparr>pr_accepted = a, pr_conflicts = c, pr_checkpoint = s\<rparr>))))"

definition enc_pull_response :: "pull_response \<Rightarrow> json" where
  "enc_pull_response r = JObj [(''ops'', JArr (map enc_op (pl_ops r))),
     (''next_checkpoint'', JNum (pl_next r)), (''has_more'', JBool (pl_more r))]"

definition dec_pull_response :: "json \<Rightarrow> string + pull_response" where
  "dec_pull_response j =
     bnd (dec_struct j) (\<lambda>kvs.
     bnd (dec_list dec_op (field ''ops'' kvs)) (\<lambda>ws.
     bnd (dec_int64 (field ''next_checkpoint'' kvs)) (\<lambda>n.
     bnd (dec_bool (field ''has_more'' kvs)) (\<lambda>m.
       Inr \<lparr>pl_ops = ws, pl_next = n, pl_more = m\<rparr>))))"

definition enc_status_response :: "status_response \<Rightarrow> json" where
  "enc_status_response r = JObj [(''device_id'', JStr (st_device r)),
     (''server_checkpoint'', JNum (st_checkpoint r)), (''conflict_count'', JNum (int (st_conflicts r)))]"

definition enc_record_response :: "record_response \<Rightarrow> json" where
  "enc_record_response r = JObj ([(''collection'', JStr (rr_collection r)), (''record_id'', JStr (rr_record r))]
     @ enc_payload (rr_payload r)
     @ [(''deleted'', JBool (rr_deleted r)), (''version_vector'', enc_vector (rr_vv r))])"

definition enc_error :: "string \<Rightarrow> json" where
  "enc_error m = JObj [(''error'', JStr m)]"

definition dec_error :: "json \<Rightarrow> string + string" where
  "dec_error j = bnd (dec_struct j) (\<lambda>kvs. dec_string (field ''error'' kvs))"

section \<open>Round trips\<close>

text \<open>
  An encoder and a decoder that agree on the values that fit the wire; lists of such values
  then agree as well.
\<close>

locale wire_codec =
  fixes enc :: "'a \<Rightarrow> json" and dec :: "json \<Rightarrow> string + 'a" and fits :: "'a \<Rightarrow> bool"
  assumes dec_enc: "fits x \<Longrightarrow> dec (enc x) = Inr x"
begin

lemma dec_all_enc: "(\<forall>x \<in> set xs. fits x) \<Longrightarrow> dec_all dec (map enc xs) = Inr xs"
  by (induction xs) (simp_all add: dec_enc)

lemma dec_list_enc: "(\<forall>x \<in> set xs. fits x) \<Longrightarrow> dec_list dec (JArr (map enc xs)) = Inr xs"
  by (simp add: dec_all_enc)

lemma enc_inj: "fits x \<Longrightarrow> fits y \<Longrightarrow> enc x = enc y \<Longrightarrow> x = y"
  by (metis dec_enc sum.inject(2))

end

interpretation js_string: wire_codec JStr dec_string "\<lambda>s. True"
  by unfold_locales simp

interpretation js_vector: wire_codec enc_vector dec_vector "\<lambda>v. True"
proof unfold_locales
  fix v :: vector
  have u: "dec_uint 64 (JNum (uint n)) = Inr n" for n :: u64
    using uint_lt2p [of n] by (simp add: dec_uint_def)
  have "dec_counters (map (\<lambda>(k, n). (k, JNum (uint n))) es) w =
      Inr (foldl (\<lambda>w e. fmupd (fst e) (snd e) w) w es)" for es and w :: vector
    by (induction es arbitrary: w) (auto simp: u)
  then show "dec_vector (enc_vector v) = Inr v"
    by (simp add: dec_vector_def enc_vector_def)
qed

definition hlc_fits :: "wire_hlc \<Rightarrow> bool" where
  "hlc_fits h \<longleftrightarrow> - (2 ^ 63) \<le> wh_physical h \<and> wh_physical h < 2 ^ 63"

interpretation js_hlc: wire_codec enc_hlc dec_hlc hlc_fits
proof unfold_locales
  fix h
  assume "hlc_fits h"
  moreover have "uint (wh_logical h) < 2 ^ 32" using uint_lt2p [of "wh_logical h"] by simp
  ultimately show "dec_hlc (enc_hlc h) = Inr h"
    by (simp add: dec_hlc_def enc_hlc_def hlc_fits_def dec_int64_def dec_uint_def)
qed

definition op_fits :: "wire_op \<Rightarrow> bool" where
  "op_fits w \<longleftrightarrow> wo_payload w \<noteq> Some [] \<and> hlc_fits (wo_hlc w)
     \<and> - (2 ^ 63) \<le> wo_seq w \<and> wo_seq w < 2 ^ 63"

interpretation js_op: wire_codec enc_op dec_op op_fits
proof unfold_locales
  fix w
  assume "op_fits w"
  moreover have "enc_vector (wo_vv w) \<noteq> JNull" "enc_hlc (wo_hlc w) \<noteq> JNull"
    by (simp_all add: enc_vector_def enc_hlc_def)
  ultimately show "dec_op (enc_op w) = Inr w"
    using js_hlc.dec_enc [of "wo_hlc w"]
    by (cases "wo_payload w")
      (auto simp: dec_op_def enc_op_def op_fits_def enc_payload_def omitempty_def dec_int64_def
        js_vector.dec_enc)
qed

interpretation js_conflict: wire_codec enc_conflict dec_conflict "\<lambda>i. True"
  by unfold_locales (simp add: dec_conflict_def enc_conflict_def)

interpretation js_register_request: wire_codec enc_register_request dec_register_request "\<lambda>r. True"
  by unfold_locales (simp add: dec_register_request_def enc_register_request_def)

interpretation js_register_response: wire_codec enc_register_response dec_register_response "\<lambda>r. True"
  by unfold_locales (simp add: dec_register_response_def enc_register_response_def)

interpretation js_push_request: wire_codec enc_push_request dec_push_request "\<lambda>ws. \<forall>w \<in> set ws. op_fits w"
  by unfold_locales (simp add: dec_push_request_def enc_push_request_def js_op.dec_all_enc)

interpretation js_push_response: wire_codec enc_push_response dec_push_response
  "\<lambda>r. - (2 ^ 63) \<le> pr_checkpoint r \<and> pr_checkpoint r < 2 ^ 63"
  by unfold_locales
    (auto simp: dec_push_response_def enc_push_response_def js_string.dec_all_enc
      js_conflict.dec_all_enc dec_int64_def)

interpretation js_pull_response: wire_codec enc_pull_response dec_pull_response
  "\<lambda>r. (\<forall>w \<in> set (pl_ops r). op_fits w) \<and> - (2 ^ 63) \<le> pl_next r \<and> pl_next r < 2 ^ 63"
  by unfold_locales
    (auto simp: dec_pull_response_def enc_pull_response_def js_op.dec_all_enc dec_int64_def)

interpretation js_error: wire_codec enc_error dec_error "\<lambda>m. True"
  by unfold_locales (simp add: dec_error_def enc_error_def)



end
