(* ===== verification/ServerHttp.thy ===== *)
theory ServerHttp
  imports SyncServer WireJson ClientHttp
begin

text \<open>
  The server's HTTP surface, \<open>internal/server/server.go\<close>: the routing table of \<open>Handler\<close> and the
  replies as JSON, over what it uses of \<open>net/http\<close>'s mux and \<open>net/url\<close>.
\<close>

section \<open>URLs\<close>

fun split_on :: "char \<Rightarrow> string \<Rightarrow> string list" where
  "split_on c [] = [[]]"
| "split_on c (x # xs) =
     (if x = c then [] # split_on c xs
      else case split_on c xs of [] \<Rightarrow> [[x]] | s # ss \<Rightarrow> (x # s) # ss)"

text \<open>\<open>strings.Cut\<close> at the first \<open>c\<close>.\<close>

fun cut :: "char \<Rightarrow> string \<Rightarrow> string \<times> string" where
  "cut c [] = ([], [])"
| "cut c (x # xs) = (if x = c then ([], xs) else (case cut c xs of (a, b) \<Rightarrow> (x # a, b)))"

definition hex_value :: "char \<Rightarrow> nat option" where
  "hex_value c =
     (let n = (of_char c :: nat)
      in if 48 \<le> n \<and> n \<le> 57 then Some (n - 48)
         else if 97 \<le> n \<and> n \<le> 102 then Some (n - 87)
         else if 65 \<le> n \<and> n \<le> 70 then Some (n - 55)
         else None)"

text \<open>Percent-decoding; in a query \<open>inQuery\<close> says that \<open>+\<close> is a space.\<close>

fun unescape :: "bool \<Rightarrow> string \<Rightarrow> string option" where
  "unescape inQuery [] = Some []"
| "unescape inQuery (c # cs) =
     (if c = CHR ''%'' then
        (case cs of
           a # b # ds \<Rightarrow>
             (case (hex_value a, hex_value b) of
                (Some h, Some l) \<Rightarrow> map_option ((#) (char_of (16 * h + l))) (unescape inQuery ds)
              | _ \<Rightarrow> None)
         | _ \<Rightarrow> None)
      else map_option ((#) (if inQuery \<and> c = CHR ''+'' then CHR '' '' else c)) (unescape inQuery cs))"

text \<open>\<open>r.URL.Query().Get(key)\<close>: the first value of the key; malformed settings are skipped.\<close>

fun first_value :: "string \<Rightarrow> string list \<Rightarrow> string" where
  "first_value key [] = []"
| "first_value key (s # ss) =
     (if s = [] \<or> CHR '';'' \<in> set s then first_value key ss
      else case cut (CHR ''='') s of (k, v) \<Rightarrow>
        (case (unescape True k, unescape True v) of
           (Some k', Some v') \<Rightarrow> (if k' = key then v' else first_value key ss)
         | _ \<Rightarrow> first_value key ss))"

definition query_get :: "string \<Rightarrow> string \<Rightarrow> string" where
  "query_get key q = first_value key (split_on (CHR ''&'') q)"

section \<open>Routes\<close>

datatype route =
    Register_Route
  | Push_Route
  | Pull_Route
  | Status_Route
  | Record_Route string string

text \<open>The patterns of \<open>Handler\<close>: method and path, by path segments.\<close>

fun route_of :: "string list \<Rightarrow> (string \<times> route) option" where
  "route_of [v, a, b] =
     (if v \<noteq> ''v1'' then None
      else if a = ''devices'' \<and> b = ''register'' then Some (''POST'', Register_Route)
      else if a = ''sync'' \<and> b = ''push'' then Some (''POST'', Push_Route)
      else if a = ''sync'' \<and> b = ''pull'' then Some (''GET'', Pull_Route)
      else if a = ''sync'' \<and> b = ''status'' then Some (''GET'', Status_Route)
      else None)"
| "route_of [v, a, c, i] =
     (if v = ''v1'' \<and> a = ''records'' \<and> c \<noteq> [] \<and> i \<noteq> []
      then (case (unescape False c, unescape False i) of
              (Some c', Some i') \<Rightarrow> Some (''GET'', Record_Route c' i')
            | _ \<Rightarrow> None)
      else None)"
| "route_of s = None"

section \<open>Replies\<close>

definition writeJSON :: "nat \<Rightarrow> json \<Rightarrow> json http_response" where
  "writeJSON status body = \<lparr>hr_status = int status, hr_body = body\<rparr>"

definition writeError :: "nat \<Rightarrow> string \<Rightarrow> json http_response" where
  "writeError status msg = writeJSON status (enc_error msg)"

fun respond :: "('a \<Rightarrow> json) \<Rightarrow> 'a reply \<Rightarrow> json http_response" where
  "respond enc (Reply status body) = writeJSON status (enc body)"
| "respond enc (Failure status msg) = writeError status msg"

text \<open>\<open>json.NewDecoder(r.Body).Decode\<close>; a request without a body gives \<open>io.EOF\<close>.\<close>

definition decode_body :: "(json \<Rightarrow> string + 'a) \<Rightarrow> json option \<Rightarrow> 'a result" where
  "decode_body dec body =
     (case body of
        None \<Rightarrow> Inl (ErrLib ''EOF'')
      | Some j \<Rightarrow> (case dec j of Inl m \<Rightarrow> Inl (ErrLib m) | Inr x \<Rightarrow> Inr x))"

section \<open>The handler\<close>

text \<open>
  What the server's process draws from outside it, by the number of requests served so far:
  random bytes, the wall clock, and the readings taken while a push handles an operation.
\<close>

record server_env =
  env_sha :: "string \<Rightarrow> bytes"
  env_random :: "nat \<Rightarrow> bytes result"
  env_time :: "nat \<Rightarrow> time"
  env_now :: "nat \<Rightarrow> op \<Rightarrow> time"

record server_state =
  sv_db :: db
  sv_served :: nat

definition NewServer :: "db \<Rightarrow> server_state" where
  "NewServer d = \<lparr>sv_db = d, sv_served = 0\<rparr>"

definition run_route :: "server_env \<Rightarrow> nat \<Rightarrow> route \<Rightarrow> string \<Rightarrow> string \<Rightarrow> json option \<Rightarrow> db
    \<Rightarrow> json http_response \<times> db" where
  "run_route env n rt q authz body d =
     (case rt of
        Register_Route \<Rightarrow>
          map_prod (respond enc_register_response) id
            (handleRegisterDevice (env_sha env) (env_random env n) (env_time env n)
              (decode_body dec_register_request body) d)
      | Push_Route \<Rightarrow>
          map_prod (respond enc_push_response) id
            (requireAuth (env_sha env) (handlePush (env_now env n) (decode_body dec_push_request body)) authz d)
      | Pull_Route \<Rightarrow>
          map_prod (respond enc_pull_response) id
            (requireAuth (env_sha env) (handlePull (query_get ''since'' q) (query_get ''limit'' q)
              (query_get ''collection'' q)) authz d)
      | Status_Route \<Rightarrow>
          map_prod (respond enc_status_response) id (requireAuth (env_sha env) handleStatus authz d)
      | Record_Route c i \<Rightarrow>
          map_prod (respond enc_record_response) id (requireAuth (env_sha env) (handleGetRecord c i) authz d))"

text \<open>
  The mux redirects a path that is not clean, answers 404 when no pattern has the path and 405
  when one has it with another method; a \<open>GET\<close> pattern also takes \<open>HEAD\<close>. Those replies are plain
  text.
\<close>

definition unclean :: "string list \<Rightarrow> bool" where
  "unclean segs \<longleftrightarrow> [] \<in> set (butlast segs) \<or> ''.'' \<in> set segs \<or> ''..'' \<in> set segs"

definition plain :: "nat \<Rightarrow> string \<Rightarrow> json http_response" where
  "plain status msg = \<lparr>hr_status = int status, hr_body = JRaw msg\<rparr>"

definition Handler :: "server_env \<Rightarrow> string \<Rightarrow> string \<Rightarrow> string \<Rightarrow> json option \<Rightarrow> server_state
    \<Rightarrow> json http_response \<times> server_state" where
  "Handler env method uri authz body s =
     (case cut (CHR ''?'') uri of (path, q) \<Rightarrow>
       (let segs = tl (split_on (CHR ''/'') path);
            s' = s\<lparr>sv_served := sv_served s + 1\<rparr>
        in if unclean segs then (plain 301 ''Moved Permanently'', s')
           else case route_of segs of
                  None \<Rightarrow> (plain 404 ''404 page not found'', s')
                | Some (m, rt) \<Rightarrow>
                    (if method = m \<or> method = ''HEAD'' \<and> m = ''GET''
                     then (case run_route env (sv_served s) rt q authz body (sv_db s) of
                             (resp, d) \<Rightarrow> (resp, s'\<lparr>sv_db := d\<rparr>))
                     else (plain 405 ''Method Not Allowed'', s'))))"

section \<open>Who can change what\<close>

text \<open>The routes by URI, as the client and the tests call them.\<close>

lemma route_register: "Handler env ''POST'' ''/v1/devices/register'' authz body s =
    (case run_route env (sv_served s) Register_Route [] authz body (sv_db s) of
       (resp, d) \<Rightarrow> (resp, s\<lparr>sv_served := sv_served s + 1, sv_db := d\<rparr>))"
  by (simp add: Handler_def Let_def unclean_def)

lemma route_push: "Handler env ''POST'' ''/v1/sync/push'' authz body s =
    (case run_route env (sv_served s) Push_Route [] authz body (sv_db s) of
       (resp, d) \<Rightarrow> (resp, s\<lparr>sv_served := sv_served s + 1, sv_db := d\<rparr>))"
  by (simp add: Handler_def Let_def unclean_def)

text \<open>Reading handlers only use up the script of statement outcomes.\<close>

definition same_tables :: "db \<Rightarrow> db \<Rightarrow> bool" where
  "same_tables d d' \<longleftrightarrow> tables d' = tables d"

lemma same_tablesI [simp]: "same_tables d d" "same_tables d (d\<lparr>db_faults := f\<rparr>)"
  by (simp_all add: same_tables_def)

lemma same_tables_trans: "same_tables d e \<Longrightarrow> same_tables e f \<Longrightarrow> same_tables d f"
  by (simp add: same_tables_def)

lemma query_same: "query sel d = (r, d') \<Longrightarrow> same_tables d d'"
  using query_effect [of sel d r d'] by auto

lemma OpsSince_same: "OpsSince since c n d = (r, d') \<Longrightarrow> same_tables d d'"
  unfolding OpsSince_def Let_def by (auto dest: query_same split: prod.splits sum.splits)

lemma handlePull_same: "same_tables d (snd (handlePull a b c dev d))"
  by (auto simp: handlePull_def dest: OpsSince_same split: sum.splits prod.splits)

lemma handleStatus_same: "same_tables d (snd (handleStatus dev d))"
  by (auto simp: handleStatus_def CurrentCheckpoint_def ListConflicts_def dest!: query_same
      intro: same_tables_trans split: sum.splits prod.splits)

lemma handleGetRecord_same: "same_tables d (snd (handleGetRecord c i dev d))"
  by (auto simp: handleGetRecord_def GetRecord_def dest!: query_same split: sum.splits prod.splits)

lemma requireAuth_same:
  assumes "\<And>v e. same_tables e (snd (nxt v e))"
  shows "same_tables d (snd (requireAuth sha nxt authz d))"
  using requireAuth_cases [of authz d sha nxt]
proof (elim disjE exE conjE)
  fix token v f
  assume "requireAuth sha nxt authz d = nxt v (d\<lparr>db_faults := f\<rparr>)"
  moreover have "same_tables d (snd (nxt v (d\<lparr>db_faults := f\<rparr>)))"
    by (rule same_tables_trans [OF same_tablesI(2) assms])
  ultimately show ?thesis by simp
qed simp_all

definition authorised :: "server_env \<Rightarrow> string \<Rightarrow> db \<Rightarrow> bool" where
  "authorised env authz d \<longleftrightarrow>
     (\<exists>token v. authz = ''Bearer '' @ token \<and> token \<noteq> [] \<and> v \<in> set (db_devices d)
        \<and> dev_hash v = hashToken (env_sha env) token)"

lemma unauthorised_same:
  assumes "\<not> authorised env authz d"
  shows "same_tables d (snd (requireAuth (env_sha env) nxt authz d))"
  using requireAuth_cases [of authz d "env_sha env" nxt] assms
  by (auto simp: authorised_def)

lemma run_route_writes:
  "same_tables d (snd (run_route env n rt q authz body d))
   \<or> rt = Register_Route \<or> rt = Push_Route \<and> authorised env authz d"
proof (cases rt)
  case Push_Route
  then show ?thesis
    using unauthorised_same [of env authz d "handlePush (env_now env n) (decode_body dec_push_request body)"]
    by (auto simp: run_route_def)
qed (simp_all add: run_route_def requireAuth_same handlePull_same handleStatus_same handleGetRecord_same)

lemma route_of_post: "route_of segs = Some (m, rt) \<Longrightarrow> rt = Register_Route \<or> rt = Push_Route \<Longrightarrow> m = ''POST''"
  by (cases segs rule: route_of.cases) (auto split: if_splits option.splits)


end
