(* ===== verification/SyncExchange.thy ===== *)
theory SyncExchange
  imports SyncSystem ServerHttp
begin

text \<open>
  The client over the server's own handler: requests and replies pass as JSON trees through
  routing and authentication, on a network that loses nothing. A \<open>Sync\<close> is then a sequence of
  the system's steps that leaves the device with the server's operations and records.
\<close>

section \<open>The composition\<close>

definition json_codec :: "json codec" where
  "json_codec = \<lparr>enc_register = \<lambda>r. Inr (enc_register_request r),
     enc_push = \<lambda>ws. Inr (enc_push_request ws), dec_register = dec_register_response,
     dec_push = dec_push_response, dec_pull = dec_pull_response\<rparr>"

definition server_net :: "server_env \<Rightarrow> string \<Rightarrow> (json, server_state) net" where
  "server_net env base = \<lparr>net_build = \<lambda>r. None,
     net_do = \<lambda>r s. (case Handler env (hq_method r) (drop (length base) (hq_url r))
         (case hq_auth r of None \<Rightarrow> [] | Some a \<Rightarrow> a) (hq_body r) s of (resp, s') \<Rightarrow> (Inr resp, s')),
     net_error = \<lambda>j. (case dec_error j of Inl m \<Rightarrow> [] | Inr m \<Rightarrow> m),
     net_wait = \<lambda>d s. (None, s), net_rand = \<lambda>n s. (0, s)\<rparr>"

section \<open>One request\<close>

lemma doJSON_once:
  assumes "case body of None \<Rightarrow> bytes = None | Some b \<Rightarrow> \<exists>j. b = Inr j \<and> bytes = Some j"
    and "net_build net (build_request base method path token bytes) = None"
    and "net_do net (build_request base method path token bytes) w = (Inr resp, w')"
    and "200 \<le> hr_status resp" and "hr_status resp < 300" and "out (hr_body resp) = Inr x"
  shows "doJSON net base pol method path token body out w = (Returns (Inr x), w')"
proof -
  have b: "(case body of None \<Rightarrow> Inr None | Some (Inl m) \<Rightarrow> Inl m | Some (Inr b) \<Rightarrow> Inr (Some b)) = Inr bytes"
    using assms(1) by (auto split: option.splits)
  obtain k where k: "nat (sint (MaxAttempts (normalized pol))) = Suc k"
    using normalized_positive(1) [of pol] by (cases "nat (sint (MaxAttempts (normalized pol)))") simp_all
  have "attemptJSON net base method path token bytes out w = (Inr x, w')"
    using assms(2-) by (simp add: attemptJSON_def Let_def)
  then show ?thesis by (simp add: doJSON_def b k Let_def)
qed

lemma server_call:
  assumes "case body of None \<Rightarrow> bytes = None | Some b \<Rightarrow> \<exists>j. b = Inr j \<and> bytes = Some j"
    and "Handler env method path (if token = [] then [] else ''Bearer '' @ token) bytes w = (resp, w')"
    and "200 \<le> hr_status resp" and "hr_status resp < 300" and "out (hr_body resp) = Inr x"
  shows "doJSON (server_net env base) base pol method path token body out w = (Returns (Inr x), w')"
proof (rule doJSON_once [where resp = resp])
  show "net_do (server_net env base) (build_request base method path token bytes) w = (Inr resp, w')"
    using assms(2) by (simp add: server_net_def build_request_def split: if_split_asm)
qed (use assms in \<open>simp_all add: server_net_def\<close>)

text \<open>The query of a pull.\<close>

lemma split_on_free: "c \<notin> set a \<Longrightarrow> split_on c a = [a]"
  by (induction a) auto

lemma split_on_append: "c \<notin> set a \<Longrightarrow> split_on c (a @ c # b) = a # split_on c b"
  by (induction a) auto

definition plain_char :: "char \<Rightarrow> bool" where
  "plain_char c \<longleftrightarrow> c \<notin> {CHR ''&'', CHR '';'', CHR ''%'', CHR ''+''}"

lemma unescape_plain: "\<forall>c \<in> set s. plain_char c \<Longrightarrow> unescape q s = Some s"
  by (induction s) (auto simp: plain_char_def)

lemma plain_digit: "d < 10 \<Longrightarrow> plain_char (digit_char d)"
proof -
  assume d: "d < 10"
  then have "of_char (digit_char d) = (48 + d :: nat)" by (rule of_char_digit_char)
  with d show ?thesis by (auto simp: plain_char_def)
qed

lemma plain_show: "c \<in> set (show_nat n) \<Longrightarrow> plain_char c"
proof (induction n rule: show_nat.induct)
  case (1 n)
  then show ?case by (auto simp: show_nat.simps [of n] plain_digit split: if_splits)
qed

lemma plain_format: "c \<in> set (format_int i) \<Longrightarrow> plain_char c"
  using plain_show by (auto simp: format_int_def plain_char_def split: if_splits)

lemma pull_query:
  fixes since :: int
  defines "q \<equiv> ''since='' @ format_int since @ ''&limit='' @ format_int pullPageSize"
  shows "query_get ''since'' q = format_int since" "query_get ''limit'' q = format_int pullPageSize"
    "query_get ''collection'' q = []"
proof -
  let ?s = "''since='' @ format_int since" and ?l = "''limit='' @ format_int pullPageSize"
  have p: "\<forall>c \<in> set (format_int i). plain_char c" for i by (simp add: plain_format)
  have free: "CHR ''&'' \<notin> set ?s" "CHR ''&'' \<notin> set ?l" "CHR '';'' \<notin> set ?s" "CHR '';'' \<notin> set ?l"
    using p [of since] p [of pullPageSize] by (auto simp: plain_char_def)
  have "q = ?s @ CHR ''&'' # ?l" by (simp add: q_def)
  then have split: "split_on (CHR ''&'') q = [?s, ?l]"
    using split_on_append [OF free(1), of ?l] split_on_free [OF free(2)] by simp
  have cuts: "cut (CHR ''='') ?s = (''since'', format_int since)"
    "cut (CHR ''='') ?l = (''limit'', format_int pullPageSize)"
    by simp_all
  note u = unescape_plain [OF p, of True]
  have k: "unescape True ''since'' = Some ''since''" "unescape True ''limit'' = Some ''limit''" by simp_all
  show "query_get ''since'' q = format_int since" "query_get ''limit'' q = format_int pullPageSize"
    "query_get ''collection'' q = []"
    unfolding query_get_def split first_value.simps cuts using free u k by simp_all
qed

section \<open>Authentication\<close>

text \<open>A device whose stored token is the server's for it.\<close>

definition enrolled :: "server_env \<Rightarrow> client \<Rightarrow> db \<Rightarrow> bool" where
  "enrolled env c d \<longleftrightarrow> (\<exists>t v. fmlookup (db_kv (c_db c)) kvDeviceToken = Some t \<and> t \<noteq> []
     \<and> find (\<lambda>v. dev_hash v = hashToken (env_sha env) t) (db_devices d) = Some v \<and> dev_id v = c_device c)"

lemma op_fits_ok: "op_ok n x \<Longrightarrow> few n \<Longrightarrow> op_fits (FromOplog x)"
  by (auto simp: op_ok_def op_fits_def hlc_fits_def int64_def few_def FromOplog_def hlcToWire_def)

lemma pull_handled:
  assumes srv: "server_ok n d" "few n" and k: "0 \<le> k" "k \<le> int (length (ops d))"
  shows "handlePull (format_int k) (format_int pullPageSize) [] v d =
    (Reply 200 \<lparr>pl_ops = map FromOplog (take 100 (drop (nat k) (ops d))),
       pl_next = k + int (length (take 100 (drop (nat k) (ops d)))),
       pl_more = length (drop (nat k) (ops d)) > 100\<rparr>, d)"
proof -
  have "k < 2 ^ 63" using k(2) server_okD(3) [OF srv(1)] srv(2) by (simp add: few_def)
  with k(1) have p: "parse_int (format_int k) = Inr k" "parse_int (format_int pullPageSize) = Inr 100"
    by (simp_all add: parse_format_int pullPageSize_def)
  have "page_size 100 = 100" by (simp add: page_size_def)
  then show ?thesis
    using OpsSince_dense [OF server_okD(5) [OF srv(1)] server_okD(2) [OF srv(1)] k, of 100]
    by (simp add: handlePull_def parseInt64_def parseInt_def p Let_def)
qed

lemma route_pull: "Handler env ''GET'' (pull_path k) authz body s =
    (case run_route env (sv_served s) Pull_Route (''since='' @ format_int k @ ''&limit='' @ format_int pullPageSize)
        authz body (sv_db s) of
       (resp, d) \<Rightarrow> (resp, s\<lparr>sv_served := sv_served s + 1, sv_db := d\<rparr>))"
  by (simp add: Handler_def Let_def unclean_def pull_path_def)

lemma pull_request:
  assumes srv: "server_ok n (sv_db w)" "few n" and k: "0 \<le> k" "k \<le> int (length (ops (sv_db w)))"
    and t: "t \<noteq> []" "find (\<lambda>v. dev_hash v = hashToken (env_sha env) t) (db_devices (sv_db w)) = Some v"
  shows "doJSON (server_net env base) base pol ''GET'' (pull_path k) t None dec_pull_response w =
    (Returns (Inr \<lparr>pl_ops = map FromOplog (take 100 (drop (nat k) (ops (sv_db w)))),
       pl_next = k + int (length (take 100 (drop (nat k) (ops (sv_db w))))),
       pl_more = length (drop (nat k) (ops (sv_db w))) > 100\<rparr>), w\<lparr>sv_served := sv_served w + 1\<rparr>)"
    (is "_ = (Returns (Inr ?r), _)")
proof (rule server_call [where bytes = None and resp = "writeJSON 200 (enc_pull_response ?r)"])
  have "requireAuth (env_sha env) (handlePull (format_int k) (format_int pullPageSize) []) (''Bearer '' @ t) (sv_db w)
      = (Reply 200 ?r, sv_db w)"
    unfolding requireAuth_token [OF server_okD(5) [OF srv(1)] t(1)] t(2)
    by (simp add: pull_handled [OF srv k] del: length_take length_drop)
  then show "Handler env ''GET'' (pull_path k) (if t = [] then [] else ''Bearer '' @ t) None w =
      (writeJSON 200 (enc_pull_response ?r), w\<lparr>sv_served := sv_served w + 1\<rparr>)"
    using t(1) by (simp add: route_pull run_route_def pull_query del: append_Cons append.simps)
  have "\<forall>x \<in> set (take 100 (drop (nat k) (ops (sv_db w)))). op_fits (FromOplog x)"
    using server_okD(4) [OF srv(1)] op_fits_ok [OF _ srv(2)] by (meson in_set_dropD in_set_takeD)
  moreover have "length (ops (sv_db w)) < 2 ^ 32" using server_okD(3) [OF srv(1)] srv(2) by (simp add: few_def)
  ultimately show "dec_pull_response (hr_body (writeJSON 200 (enc_pull_response ?r))) = Inr ?r"
    using k by (simp add: writeJSON_def js_pull_response.dec_enc)
qed (simp_all add: writeJSON_def)

section \<open>Pulls as steps\<close>

lemma set_client_twice [simp]: "set_client i c (set_client i c' s) = set_client i c s"
  by (simp add: set_client_def)

lemma set_client_same: "sys_client s i = c \<Longrightarrow> set_client i c s = s"
  by (auto simp: set_client_def)

lemma ids_accept: "ids (accept now a x d) = insert (op_id x) (ids d)"
proof (cases "op_id x \<in> op_id ` set (ops d)")
  case True
  then show ?thesis by (simp add: accept_known ids_def insert_absorb)
next
  case False
  then show ?thesis by (simp add: accept_new(1) ids_def)
qed

lemma finite_ids [simp]: "finite (ids d)"
  by (simp add: ids_def)

text \<open>What pulling the operations with the ids \<open>X\<close> does to a client.\<close>

definition advanced :: "client \<Rightarrow> client \<Rightarrow> string set \<Rightarrow> bool" where
  "advanced c c' X \<longleftrightarrow> db_faults (c_db c') = [] \<and> ids (c_db c') = ids (c_db c) \<union> X
     \<and> outbox (c_device c) (c_db c') = outbox (c_device c) (c_db c)
     \<and> fmlookup (db_kv (c_db c')) kvDeviceToken = fmlookup (db_kv (c_db c)) kvDeviceToken
     \<and> c_device c' = c_device c \<and> c_base c' = c_base c \<and> c_policy c' = c_policy c"

lemma advanced_refl: "db_faults (c_db c) = [] \<Longrightarrow> advanced c c {}"
  by (simp add: advanced_def)

lemma advanced_trans: "advanced c c' X \<Longrightarrow> advanced c' c'' Y \<Longrightarrow> advanced c c'' (X \<union> Y)"
  by (auto simp: advanced_def)

lemma advanced_accept:
  assumes "db_faults (c_db c) = []" and "op_device x = c_device c \<longrightarrow> op_id x \<in> ids (c_db c)"
  shows "advanced c (c\<lparr>c_db := accept now False x (c_db c), c_clock := clk\<rparr>) {op_id x}"
proof -
  have "outbox (c_device c) (accept now False x (c_db c)) = outbox (c_device c) (c_db c)"
  proof (cases "op_id x \<in> op_id ` set (ops (c_db c))")
    case False
    then show ?thesis using assms(2) by (auto simp: outbox_accept ids_def)
  qed (simp add: accept_known)
  then show ?thesis using assms(1) by (simp add: advanced_def ids_accept)
qed

lemma pulled_count:
  "fst (pulled_tally x d t) + card (ids d) = fst t + card (ids (accept now False x d))"
  by (cases "op_id x \<in> ids d") (simp_all add: pulled_tally_def ids_accept insert_absorb flip: ids_def)

lemma pull_ops_steps:
  assumes "server_ok n (sys_server s)" and "set xs \<subseteq> set (ops (sys_server s))" and "\<forall>x. int64 (phys x)"
    and "db_faults (c_db (sys_client s i)) = []"
    and "\<forall>x \<in> set xs. op_device x = c_device (sys_client s i) \<longrightarrow> op_id x \<in> ids (c_db (sys_client s i))"
  shows "\<exists>t' c'. pull_ops phys now (map FromOplog xs) t (sys_client s i) = (Inr t', c')
    \<and> advanced (sys_client s i) c' (op_id ` set xs)
    \<and> fst t' + card (ids (c_db (sys_client s i))) = fst t + card (ids (c_db c'))
    \<and> (step ^^ length xs) s (set_client i c' s)"
  using assms
proof (induction xs arbitrary: s t)
  case Nil
  then show ?case by (simp add: advanced_refl set_client_same)
next
  case (Cons x xs)
  let ?c = "sys_client s i"
  define c1 where "c1 = ?c\<lparr>c_db := accept now False x (c_db ?c),
    c_clock := snd (Observe (phys x) (op_hlc x) (c_clock ?c))\<rparr>"
  define s1 where "s1 = set_client i c1 s"
  have x: "x \<in> set (ops (sys_server s))" using Cons.prems(2) by simp
  then have "Validate x = None" using server_okD(4) [OF Cons.prems(1)] by (simp add: op_ok_def)
  then have run: "pull_op phys now (FromOplog x) u ?c = (Inr (pulled_tally x (c_db ?c) u), c1)" for u
    by (simp add: pull_op_ok [OF Cons.prems(4) ToOplog_FromOplog] c1_def)
  have adv: "advanced ?c c1 {op_id x}"
    unfolding c1_def by (rule advanced_accept [OF Cons.prems(4)]) (use Cons.prems(5) in simp)
  have st: "step s s1"
    using step.Pull [OF x, of phys i now t] Cons.prems(3) by (simp add: run s1_def)
  have c1: "sys_client s1 i = c1" "sys_server s1 = sys_server s" by (simp_all add: s1_def)
  have f1: "db_faults (c_db c1) = []" and d1: "c_device c1 = c_device ?c" and i1: "ids (c_db ?c) \<subseteq> ids (c_db c1)"
    using adv by (auto simp: advanced_def)
  have xs: "set xs \<subseteq> set (ops (sys_server s))" using Cons.prems(2) by simp
  have own: "\<forall>x \<in> set xs. op_device x = c_device c1 \<longrightarrow> op_id x \<in> ids (c_db c1)"
    using Cons.prems(5) i1 d1 by auto
  obtain t' c' where ih: "pull_ops phys now (map FromOplog xs) (pulled_tally x (c_db ?c) t) c1 = (Inr t', c')"
    "advanced c1 c' (op_id ` set xs)"
    "fst t' + card (ids (c_db c1)) = fst (pulled_tally x (c_db ?c) t) + card (ids (c_db c'))"
    "(step ^^ length xs) s1 (set_client i c' s1)"
    using Cons.IH [of s1 "pulled_tally x (c_db ?c) t", unfolded c1, OF Cons.prems(1) xs Cons.prems(3) f1 own]
    by blast
  have "(step ^^ length (x # xs)) s (set_client i c' s)"
    using relpowp_Suc_I2 [OF st ih(4)] by (simp add: s1_def)
  moreover have "fst t' + card (ids (c_db ?c)) = fst t + card (ids (c_db c'))"
    using ih(3) pulled_count [of x "c_db ?c" t now] by (simp add: c1_def)
  ultimately show ?case
    using ih(1) advanced_trans [OF adv ih(2)] by (simp add: run)
qed

lemma save_step:
  assumes "db_faults (c_db (sys_client s i)) = []"
    and "0 \<le> k" and "k \<le> int (length (ops (sys_server s)))"
    and "op_id ` set (take (nat k) (ops (sys_server s))) \<subseteq> ids (c_db (sys_client s i))"
  shows "\<exists>c'. setCheckpoint k (sys_client s i) = (Inr (), c') \<and> advanced (sys_client s i) c' {}
    \<and> step s (set_client i c' s)"
proof -
  let ?c = "sys_client s i"
  let ?c' = "?c\<lparr>c_db := (c_db ?c)\<lparr>db_kv := fmupd kvLastCheckpoint (format_int k) (db_kv (c_db ?c))\<rparr>\<rparr>"
  have run: "setCheckpoint k ?c = (Inr (), ?c')"
    by (simp add: setCheckpoint_def with_db_def SetKV_def store_simps assms(1))
  have "kvDeviceToken \<noteq> kvLastCheckpoint" by (simp add: kvDeviceToken_def kvLastCheckpoint_def)
  then have "advanced ?c ?c' {}"
    using assms(1) by (simp add: advanced_def ids_def outbox_def)
  with run step.Save [OF assms(2-4)] show ?thesis by auto
qed

text \<open>A client that has the server's first \<open>k\<close> operations and all its own.\<close>

definition behind :: "nat \<Rightarrow> system \<Rightarrow> string \<Rightarrow> int \<Rightarrow> bool" where
  "behind n s i k \<longleftrightarrow> server_ok n (sys_server s) \<and> 0 \<le> k \<and> k \<le> int (length (ops (sys_server s)))
     \<and> op_id ` set (take (nat k) (ops (sys_server s))) \<subseteq> ids (c_db (sys_client s i))
     \<and> db_faults (c_db (sys_client s i)) = []
     \<and> (\<forall>x \<in> set (ops (sys_server s)).
          op_device x = c_device (sys_client s i) \<longrightarrow> op_id x \<in> ids (c_db (sys_client s i)))"

lemma behindD:
  assumes "behind n s i k"
  shows "server_ok n (sys_server s)" "0 \<le> k" "k \<le> int (length (ops (sys_server s)))"
    "op_id ` set (take (nat k) (ops (sys_server s))) \<subseteq> ids (c_db (sys_client s i))"
    "db_faults (c_db (sys_client s i)) = []"
    "x \<in> set (ops (sys_server s)) \<Longrightarrow> op_device x = c_device (sys_client s i) \<Longrightarrow>
      op_id x \<in> ids (c_db (sys_client s i))"
  using assms unfolding behind_def by (blast, blast, blast, blast, blast, blast)

text \<open>One page: its operations and the checkpoint after them.\<close>

lemma page_steps:
  fixes s i and k :: int
  defines "p \<equiv> take 100 (drop (nat k) (ops (sys_server s)))"
  assumes at: "behind n s i k" and phys: "\<forall>x. int64 (phys x)"
  shows "\<exists>u1 c1 c2. pull_ops phys now (map FromOplog p) u (sys_client s i) = (Inr u1, c1)
    \<and> setCheckpoint (k + int (length p)) c1 = (Inr (), c2) \<and> advanced (sys_client s i) c2 (op_id ` set p)
    \<and> fst u1 + card (ids (c_db (sys_client s i))) = fst u + card (ids (c_db c2))
    \<and> (step ^^ Suc (length p)) s (set_client i c2 s)
    \<and> behind n (set_client i c2 s) i (k + int (length p))"
proof -
  let ?c = "sys_client s i" and ?d = "sys_server s" and ?k = "k + int (length p)"
  note at = behindD [OF at]
  have p: "set p \<subseteq> set (ops ?d)" unfolding p_def by (meson in_set_dropD in_set_takeD subsetI)
  obtain u1 c1 where 1: "pull_ops phys now (map FromOplog p) u ?c = (Inr u1, c1)" "advanced ?c c1 (op_id ` set p)"
    "fst u1 + card (ids (c_db ?c)) = fst u + card (ids (c_db c1))" "(step ^^ length p) s (set_client i c1 s)"
    using pull_ops_steps [OF at(1) p phys at(5), of now u] at(6) p by blast
  define s1 where "s1 = set_client i c1 s"
  have s1: "sys_client s1 i = c1" "sys_server s1 = ?d" by (simp_all add: s1_def)
  have kl: "0 \<le> ?k" "?k \<le> int (length (ops ?d))" using at(2,3) by (auto simp: p_def min_def)
  have "take (nat ?k) (ops ?d) = take (nat k) (ops ?d) @ p"
    using at(2) by (simp add: p_def nat_add_distrib take_add min_def)
  then have held: "op_id ` set (take (nat ?k) (ops ?d)) \<subseteq> ids (c_db c1)"
    using at(4) 1(2) by (auto simp: advanced_def)
  have f1: "db_faults (c_db c1) = []" using 1(2) by (simp add: advanced_def)
  obtain c2 where 2: "setCheckpoint ?k c1 = (Inr (), c2)" "advanced c1 c2 {}" "step s1 (set_client i c2 s1)"
    using save_step [of s1 i ?k, unfolded s1, OF f1 kl held] by blast
  have st: "(step ^^ Suc (length p)) s (set_client i c2 s)"
    using relpowp_Suc_I [OF 1(4) [folded s1_def] 2(3)] by (simp add: s1_def)
  have adv: "advanced ?c c2 (op_id ` set p)" using advanced_trans [OF 1(2) 2(2)] by simp
  have ids2: "ids (c_db c2) = ids (c_db c1)" using 2(2) by (simp add: advanced_def)
  have "behind n (set_client i c2 s) i ?k"
    using at(1,6) kl held adv ids2 by (auto simp: behind_def advanced_def)
  then show ?thesis using 1(1,3) 2(1) st adv unfolding ids2 [symmetric] by blast
qed

text \<open>A page holds 100 operations, so pages enough for the rest of the log end the loop.\<close>

lemma page_bounds:
  "r < 100 * Suc fuel \<Longrightarrow> 100 < r \<Longrightarrow> r - 100 < 100 * fuel"
  "m \<le> 2 * (r - 100) + 1 \<Longrightarrow> 100 < r \<Longrightarrow> Suc 100 + m \<le> 2 * r + 1" for r m :: nat
  by simp_all

lemma page_rest:
  assumes "0 \<le> k" and "length (take 100 (drop (nat k) xs)) = 100"
  shows "nat (k + 100) = nat k + 100"
    "op_id ` set (drop (nat k) xs) = op_id ` set (take 100 (drop (nat k) xs)) \<union> op_id ` set (drop (nat (k + 100)) xs)"
proof -
  show n: "nat (k + 100) = nat k + 100" using assms(1) by simp
  have "drop (nat k) xs = take 100 (drop (nat k) xs) @ drop (nat (k + 100)) xs"
    unfolding n using append_take_drop_id [of 100 "drop (nat k) xs"] by (simp only: drop_drop add.commute)
  from arg_cong [OF this, of "\<lambda>l. op_id ` set l"]
  show "op_id ` set (drop (nat k) xs) = op_id ` set (take 100 (drop (nat k) xs)) \<union> op_id ` set (drop (nat (k + 100)) xs)"
    by (simp only: set_append image_Un)
qed

lemma pull_loop_steps:
  assumes "behind n s i k" and "few n" and "\<forall>x. int64 (phys x)"
    and "tok \<noteq> []" and "find (\<lambda>v. dev_hash v = hashToken (env_sha env) tok) (db_devices (sys_server s)) = Some v"
    and "sv_db w = sys_server s" and "length (ops (sys_server s)) - nat k < 100 * fuel"
  shows "\<exists>u' c' w' m. pull_loop fuel (server_net env (c_base (sys_client s i))) json_codec phys now tok k u
        (sys_client s i) w = Some (Returns (Inr u'), c', w')
    \<and> sv_db w' = sys_server s \<and> advanced (sys_client s i) c' (op_id ` set (drop (nat k) (ops (sys_server s))))
    \<and> fst u' + card (ids (c_db (sys_client s i))) = fst u + card (ids (c_db c'))
    \<and> (step ^^ m) s (set_client i c' s) \<and> m \<le> 2 * (length (ops (sys_server s)) - nat k) + 1"
  using assms
proof (induction fuel arbitrary: k u s w)
  case 0
  then show ?case by simp
next
  case (Suc fuel)
  let ?c = "sys_client s i" and ?d = "sys_server s"
  let ?p = "take 100 (drop (nat k) (ops ?d))" and ?w = "w\<lparr>sv_served := sv_served w + 1\<rparr>"
  note at = behindD [OF Suc.prems(1)]
  note req = pull_request [of n w k tok env v, unfolded Suc.prems(6), OF at(1) Suc.prems(2) at(2,3) Suc.prems(4,5)]
  obtain u1 c1 c2 where 1: "pull_ops phys now (map FromOplog ?p) u ?c = (Inr u1, c1)"
    "setCheckpoint (k + int (length ?p)) c1 = (Inr (), c2)" "advanced ?c c2 (op_id ` set ?p)"
    "fst u1 + card (ids (c_db ?c)) = fst u + card (ids (c_db c2))"
    "(step ^^ Suc (length ?p)) s (set_client i c2 s)" "behind n (set_client i c2 s) i (k + int (length ?p))"
    using page_steps [OF Suc.prems(1,3)] by blast
  have base: "c_base c2 = c_base ?c" using 1(3) by (simp add: advanced_def)
  show ?case
  proof (cases "length (drop (nat k) (ops ?d)) > 100")
    case False
    then have all: "?p = drop (nat k) (ops ?d)" by simp
    have "pull_loop (Suc fuel) (server_net env (c_base ?c)) json_codec phys now tok k u ?c w =
        Some (Returns (Inr u1), c2, ?w)"
      using 1(1,2) False by (simp add: req json_codec_def)
    moreover have "Suc (length ?p) \<le> 2 * (length (ops ?d) - nat k) + 1" "sv_db ?w = ?d"
      using Suc.prems(6) by simp_all
    ultimately show ?thesis using 1(3-5) unfolding all by blast
  next
    case True
    then have lp: "length ?p = 100" and more100: "100 < length (ops ?d) - nat k" by simp_all
    note rest = page_rest [OF at(2) lp] and 1 = 1 [unfolded lp of_nat_numeral]
    have loop: "pull_loop (Suc fuel) (server_net env (c_base ?c)) json_codec phys now tok k u ?c w =
        pull_loop fuel (server_net env (c_base c2)) json_codec phys now tok (k + 100) u1 c2 ?w"
      using 1(1,2) True lp by (simp add: req json_codec_def base)
    have less: "length (ops ?d) - nat (k + 100) < 100 * fuel"
      using page_bounds(1) [OF Suc.prems(7) more100] unfolding rest(1) diff_diff_left .
    have w1: "sv_db ?w = ?d" using Suc.prems(6) by simp
    obtain u' c' w' m where ih: "pull_loop fuel (server_net env (c_base c2)) json_codec phys now tok (k + 100) u1 c2 ?w
        = Some (Returns (Inr u'), c', w')"
      "sv_db w' = ?d" "advanced c2 c' (op_id ` set (drop (nat (k + 100)) (ops ?d)))"
      "fst u' + card (ids (c_db c2)) = fst u1 + card (ids (c_db c'))"
      "(step ^^ m) (set_client i c2 s) (set_client i c' s)" "m \<le> 2 * (length (ops ?d) - nat (k + 100)) + 1"
      using Suc.IH [OF 1(6) Suc.prems(2-4), of ?w u1] Suc.prems(5) w1 less by auto
    have steps: "(step ^^ (Suc 100 + m)) s (set_client i c' s)"
      unfolding relpowp_add using 1(5) ih(5) by blast
    have "Suc 100 + m \<le> 2 * (length (ops ?d) - nat k) + 1"
      using page_bounds(2) [OF ih(6) [unfolded rest(1) diff_diff_left [symmetric]] more100] .
    moreover have "fst u' + card (ids (c_db ?c)) = fst u + card (ids (c_db c'))" using ih(4) 1(4) by linarith
    ultimately show ?thesis
      using ih(1,2) advanced_trans [OF 1(3) ih(3)] steps unfolding loop rest(2) by blast
  qed
qed

section \<open>Pushes as steps\<close>

lemma good_steps: "(step ^^ m) s s' \<Longrightarrow> good n s \<Longrightarrow> few (n + m) \<Longrightarrow> good (n + m) s'"
proof (induction m arbitrary: s')
  case 0
  then show ?case by simp
next
  case (Suc m)
  then obtain s1 where s1: "(step ^^ m) s s1" "step s1 s'" by auto
  have "few (n + m)" by (rule few_mono [OF Suc.prems(3)]) simp
  with Suc.IH [OF s1(1) Suc.prems(2)] good_step [OF s1(2)] show ?case by simp
qed

lemma run_steps: "run url n s \<Longrightarrow> (step ^^ m) s s' \<Longrightarrow> run url (n + m) s'"
proof (induction m arbitrary: s')
  case (Suc m)
  then obtain s1 where "(step ^^ m) s s1" "step s1 s'" by auto
  with Suc show ?case using run.Step [of url "n + m" s1 s'] by simp
qed simp

text \<open>No replica's log is longer than the number of operations there are.\<close>

lemma log_length:
  assumes g: "good n s" and d: "d \<in> stores s"
  shows "length (ops d) \<le> card (\<Union> (range (logs s)))"
proof -
  have "distinct (map op_id (ops d))"
    using d sound_dbD(4) [OF server_okD(1) [OF goodD(2) [OF g]]]
      sound_dbD(4) [OF client_okD(1) [OF goodD(1) [OF g]]] by (auto simp: stores_def)
  then have "length (ops d) = card (op_id ` set (ops d))"
    using distinct_card [of "map op_id (ops d)"] by simp
  also have "op_id ` set (ops d) = op_id ` core ` set (ops d)" by (auto simp: image_image)
  also have "card \<dots> \<le> card (core ` set (ops d))" by (rule card_image_le) simp
  also have "\<dots> \<le> card (\<Union> (range (logs s)))"
    by (rule card_mono [OF goodD(5) [OF g] store_cores(1) [OF g d]])
  finally show ?thesis .
qed

lemma accept_all_ids: "ids (foldl (\<lambda>d x. accept now a x d) d xs) = ids d \<union> op_id ` set xs"
  by (induction xs arbitrary: d) (auto simp: ids_accept)

lemma accept_all_devices: "db_devices (foldl (\<lambda>d x. accept now a x d) d xs) = db_devices d"
  by (induction xs arbitrary: d) simp_all

lemma accept_all_length: "length (ops (foldl (\<lambda>d x. accept now a x d) d xs)) \<le> length (ops d) + length xs"
proof (induction xs arbitrary: d)
  case (Cons x xs)
  have "length (ops (accept now a x d)) \<le> Suc (length (ops d))"
    by (cases "op_id x \<in> op_id ` set (ops d)") (simp_all add: accept_known accept_new(1))
  with Cons.IH [of "accept now a x d"] show ?case by simp
qed simp

lemma push_ops_steps:
  assumes "\<forall>x \<in> set xs. push_ready dev x (sys_server s)" and "dev_id dev = i"
    and "set xs \<subseteq> set (ops (c_db (sys_client s i)))"
  shows "(step ^^ length xs) s (s\<lparr>sys_server := foldl (\<lambda>d x. accept now True x d) (sys_server s) xs\<rparr>)"
  using assms
proof (induction xs arbitrary: s)
  case (Cons x xs)
  let ?s1 = "s\<lparr>sys_server := accept now True x (sys_server s)\<rparr>"
  have x: "push_ready dev x (sys_server s)" using Cons.prems(1) by simp
  then have dev: "op_device x = i" using Cons.prems(2) by (simp add: push_ready_def)
  have "x \<in> set (ops (c_db (sys_client s i)))" using Cons.prems(3) by simp
  from step.Push [where now = now, OF this dev Cons.prems(2)] have st: "step s ?s1"
    by (simp add: push_op_accept [OF x])
  have rdy: "\<forall>y \<in> set xs. push_ready dev y (sys_server ?s1)"
    using Cons.prems(1) by (auto simp: push_ready_def intro: acc.ready_add)
  have sub: "set xs \<subseteq> set (ops (c_db (sys_client ?s1 i)))" using Cons.prems(3) by simp
  from relpowp_Suc_I2 [OF st Cons.IH [OF rdy Cons.prems(2) sub]] show ?case by simp
qed simp

lemma outbox_marked:
  assumes "db_faults d = []"
  shows "outbox i (snd (MarkPushed (map op_id (outbox i d)) d)) = []"
  by (auto simp: MarkPushed_ok [OF assms] outbox_def filter_empty_conv image_iff)

lemma push_request:
  assumes "\<forall>x \<in> set xs. push_ready v x (sv_db w) \<and> op_fits (FromOplog x)" and "db_faults (sv_db w) = []"
    and "t \<noteq> []" and "find (\<lambda>v. dev_hash v = hashToken (env_sha env) t) (db_devices (sv_db w)) = Some v"
    and "dense_log (sv_db w)" and "length (ops (sv_db w)) + length xs < 2 ^ 63"
  shows "\<exists>cs k now. doJSON (server_net env base) base pol ''POST'' ''/v1/sync/push'' t
      (Some (Inr (enc_push_request (map FromOplog xs)))) dec_push_response w =
    (Returns (Inr \<lparr>pr_accepted = map op_id xs, pr_conflicts = cs, pr_checkpoint = k\<rparr>),
     w\<lparr>sv_served := sv_served w + 1, sv_db := foldl (\<lambda>d x. accept now True x d) (sv_db w) xs\<rparr>)"
proof -
  define now where "now = env_now env (sv_served w)"
  let ?d = "foldl (\<lambda>d x. accept now True x d) (sv_db w) xs"
  have rdy: "\<forall>x \<in> set xs. push_ready v x (sv_db w)" using assms(1) by simp
  obtain cs where h: "handlePush now (Inr (map FromOplog xs)) v (sv_db w) =
      (Reply 200 \<lparr>pr_accepted = map op_id xs, pr_conflicts = cs, pr_checkpoint = db_next ?d - 1\<rparr>, ?d)"
    by (rule handlePush_ok [OF rdy assms(2)])
  define r where "r = \<lparr>pr_accepted = map op_id xs, pr_conflicts = cs, pr_checkpoint = db_next ?d - 1\<rparr>"
  have "db_next ?d - 1 = int (length (ops ?d))"
    using accept_all_dense [OF assms(5)] by (simp add: dense_log_def)
  with accept_all_length [of now True "sv_db w" xs] assms(6)
  have fits: "- (2 ^ 63) \<le> pr_checkpoint r \<and> pr_checkpoint r < 2 ^ 63" by (simp add: r_def)
  have body: "decode_body dec_push_request (Some (enc_push_request (map FromOplog xs))) = Inr (map FromOplog xs)"
    using js_push_request.dec_enc [of "map FromOplog xs"] assms(1) by (simp add: decode_body_def)
  have auth: "requireAuth (env_sha env) (handlePush now (Inr (map FromOplog xs))) (''Bearer '' @ t) (sv_db w)
      = (Reply 200 r, ?d)"
    unfolding requireAuth_token [OF assms(2,3)] assms(4) by (simp add: h r_def)
  have "doJSON (server_net env base) base pol ''POST'' ''/v1/sync/push'' t
      (Some (Inr (enc_push_request (map FromOplog xs)))) dec_push_response w =
      (Returns (Inr r), w\<lparr>sv_served := sv_served w + 1, sv_db := ?d\<rparr>)"
  proof (rule server_call [where bytes = "Some (enc_push_request (map FromOplog xs))"
        and resp = "writeJSON 200 (enc_push_response r)"])
    show "Handler env ''POST'' ''/v1/sync/push'' (if t = [] then [] else ''Bearer '' @ t)
        (Some (enc_push_request (map FromOplog xs))) w =
        (writeJSON 200 (enc_push_response r), w\<lparr>sv_served := sv_served w + 1, sv_db := ?d\<rparr>)"
      using assms(3) auth unfolding now_def
      by (simp add: route_push run_route_def body del: append_Cons append.simps)
  qed (use js_push_response.dec_enc fits in \<open>simp_all add: writeJSON_def\<close>)
  then show ?thesis unfolding r_def by blast
qed

lemma outbox_member: "x \<in> set (outbox i d) \<Longrightarrow> x \<in> set (ops d) \<and> op_device x = i"
  by (auto simp: outbox_def ops_def)

lemma length_outbox: "length (outbox i d) \<le> length (ops d)"
  by (simp add: outbox_def ops_def)

lemma marked_fields:
  assumes "db_faults d = []"
  shows "ops (snd (MarkPushed is d)) = ops d" "db_kv (snd (MarkPushed is d)) = db_kv d"
    "db_faults (snd (MarkPushed is d)) = []"
  using assms by (simp_all add: MarkPushed_ok)

lemma client_store: "c_db (sys_client s i) \<in> stores s"
  by (simp add: stores_def)

lemma server_store: "sys_server s \<in> stores s"
  by (simp add: stores_def)

lemma push_steps:
  fixes i s
  defines "c \<equiv> sys_client s i" and "xs \<equiv> outbox i (c_db (sys_client s i))"
  assumes g: "good n s" and few: "few n" and w: "sv_db w = sys_server s"
    and t: "t \<noteq> []" "find (\<lambda>v. dev_hash v = hashToken (env_sha env) t) (db_devices (sys_server s)) = Some v"
      "dev_id v = i"
  shows "\<exists>cs c' w' m. push (server_net env (c_base c)) json_codec t c w = (Returns (Inr (length xs, cs)), c', w')
    \<and> (step ^^ m) s (set_client i c' (s\<lparr>sys_server := sv_db w'\<rparr>)) \<and> m \<le> card (\<Union> (range (logs s))) + 1
    \<and> ids (sv_db w') = ids (sys_server s) \<union> op_id ` set xs
    \<and> db_devices (sv_db w') = db_devices (sys_server s)
    \<and> outbox i (c_db c') = [] \<and> ops (c_db c') = ops (c_db c) \<and> db_kv (c_db c') = db_kv (c_db c)
    \<and> c_device c' = c_device c \<and> c_base c' = c_base c"
proof (cases "xs = []")
  case True
  have "push (server_net env (c_base c)) json_codec t c w = (Returns (Inr (length xs, [])), c, w)"
    using True client_okD(2,8) [OF goodD(1) [OF g]] by (simp add: push_ok c_def xs_def)
  moreover have "(step ^^ 0) s (set_client i c (s\<lparr>sys_server := sv_db w\<rparr>))"
    by (simp add: w c_def set_client_same)
  ultimately show ?thesis
    using True w by (intro exI [of _ "[]"] exI [of _ c] exI [of _ w] exI [of _ 0]) (simp add: xs_def c_def)
next
  case False
  note cl = goodD(1) [OF g, of i, folded c_def] and srv = goodD(2) [OF g]
  have held: "x \<in> set (ops (c_db c)) \<and> op_device x = i" if "x \<in> set xs" for x
    using outbox_member that by (auto simp: xs_def c_def)
  have rdy: "push_ready v x (sys_server s)" if "x \<in> set xs" for x
    using held [OF that] client_okD(5) [OF cl] ready_sound [OF server_okD(1) [OF srv]] t(3)
    by (auto simp: push_ready_def op_ok_def)
  have fits: "op_fits (FromOplog x)" if "x \<in> set xs" for x
    using held [OF that] client_okD(5) [OF cl] op_fits_ok [OF _ few] by blast
  have lens: "length xs \<le> card (\<Union> (range (logs s)))" "length (ops (sys_server s)) \<le> card (\<Union> (range (logs s)))"
    using length_outbox [of i "c_db c"] log_length [OF g client_store [of s i]] log_length [OF g server_store]
    by (simp_all add: xs_def c_def)
  then have "length (ops (sv_db w)) + length xs < 2 ^ 63"
    using goodD(6) [OF g] few by (simp add: w few_def)
  then obtain cs k now where req: "doJSON (server_net env (c_base c)) (c_base c) (c_policy c) ''POST'' ''/v1/sync/push'' t
      (Some (Inr (enc_push_request (map FromOplog xs)))) dec_push_response w =
    (Returns (Inr \<lparr>pr_accepted = map op_id xs, pr_conflicts = cs, pr_checkpoint = k\<rparr>),
     w\<lparr>sv_served := sv_served w + 1, sv_db := foldl (\<lambda>d x. accept now True x d) (sv_db w) xs\<rparr>)"
    using push_request [of xs v w t env "c_base c" "c_policy c"] rdy fits server_okD(2,5) [OF srv] t(1,2)
    unfolding w by blast
  let ?d = "foldl (\<lambda>d x. accept now True x d) (sys_server s) xs"
  define c' where "c' = c\<lparr>c_db := snd (MarkPushed (map op_id xs) (c_db c))\<rparr>"
  define w' where "w' = w\<lparr>sv_served := sv_served w + 1, sv_db := ?d\<rparr>"
  define s1 where "s1 = s\<lparr>sys_server := ?d\<rparr>"
  have run: "push (server_net env (c_base c)) json_codec t c w = (Returns (Inr (length xs, cs)), c', w')"
    using False req client_okD(2,8) [OF cl]
    by (simp add: push_ok xs_def [symmetric] json_codec_def c'_def w'_def w)
      (simp add: c_def xs_def)
  have "(step ^^ length xs) s s1"
    unfolding s1_def by (rule push_ops_steps [OF _ t(3)]) (use rdy held in \<open>auto simp: c_def\<close>)
  moreover have "step s1 (set_client i c' s1)"
    using step.Mark [of "map op_id xs" s1 i] accept_all_ids [of now True "sys_server s" xs]
    by (simp add: s1_def c'_def c_def)
  ultimately have "(step ^^ Suc (length xs)) s (set_client i c' (s\<lparr>sys_server := sv_db w'\<rparr>))"
    unfolding s1_def w'_def by (auto intro: relpowp_Suc_I)
  moreover have "outbox i (c_db c') = []"
    using outbox_marked [OF client_okD(8) [OF cl], of i] by (simp add: c'_def xs_def c_def)
  moreover note marked_fields [OF client_okD(8) [OF cl], of "map op_id xs"]
  ultimately show ?thesis
    using run lens(1) accept_all_ids [of now True "sys_server s" xs] accept_all_devices [of now True "sys_server s" xs]
    by (intro exI [of _ cs] exI [of _ c'] exI [of _ w'] exI [of _ "Suc (length xs)"]) (simp add: c'_def w'_def)
qed

section \<open>A sync as steps\<close>

lemma checkpoint_saved:
  assumes "client_ok n srv i c"
  shows "\<exists>k. checkpoint c = (Inr k, c) \<and> 0 \<le> k \<and> k \<le> int (length (ops srv))
    \<and> op_id ` set (take (nat k) (ops srv)) \<subseteq> ids (c_db c)"
proof -
  obtain k where k: "(case fmlookup (db_kv (c_db c)) kvLastCheckpoint of None \<Rightarrow> Inr 0 | Some v \<Rightarrow> parse_int v) = Inr k"
    "0 \<le> k" "k \<le> int (length (ops srv))" "op_id ` set (take (nat k) (ops srv)) \<subseteq> ids (c_db c)"
    using client_okD(7) [OF assms] unfolding saved_def by blast
  then have "checkpoint c = (Inr k, c)"
    using client_okD(8) [OF assms] by (simp add: checkpoint_def GetKV_def split: option.splits)
  with k show ?thesis by blast
qed

lemma own_known:
  assumes g: "good n s" and x: "x \<in> set (ops (sys_server s))" and i: "op_device x = i"
  shows "op_id x \<in> ids (c_db (sys_client s i))"
proof -
  obtain j where "core x \<in> logs s j" using goodD(4) [OF g] x by blast
  then have "proper_op (logs s) (core x)" by (rule historyD(1) [OF goodD(3) [OF g]])
  then have "core x \<in> logs s i" using i by (simp add: proper_op_def)
  then obtain y where y: "y \<in> set (ops (c_db (sys_client s i)))" "core x = core y" by (auto simp: logs_def)
  have "op_id x = op_id y" using arg_cong [OF y(2), of op_id] by simp
  with y(1) show ?thesis by (simp add: ids_def)
qed

text \<open>With an empty outbox a device's operations are all at the server.\<close>

lemma acked_all:
  assumes "acked srv i d" and "outbox i d = []"
  shows "ids d \<subseteq> ids srv"
proof
  fix z
  assume "z \<in> ids d"
  then obtain r where r: "r \<in> set (db_oplog d)" "z = op_id (row_op r)" by (auto simp: ids_def ops_def)
  then have "op_device (row_op r) \<noteq> i \<or> row_pushed r"
    using assms(2) by (auto simp: outbox_def filter_empty_conv)
  with r assms(1) show "z \<in> ids srv" by (auto simp: acked_def)
qed

lemma enrolled_same:
  assumes "enrolled env c d" and "db_devices d' = db_devices d" and "c_device c' = c_device c"
    and "fmlookup (db_kv (c_db c')) kvDeviceToken = fmlookup (db_kv (c_db c)) kvDeviceToken"
  shows "enrolled env c' d'"
  using assms by (simp add: enrolled_def)

text \<open>What one sync of a device does to the system.\<close>

definition synced :: "server_env \<Rightarrow> string \<Rightarrow> system \<Rightarrow> system \<Rightarrow> sync_result \<Rightarrow> bool" where
  "synced env i s s' r \<longleftrightarrow>
     (\<exists>m \<le> 3 * card (\<Union> (range (logs s))) + 2. (step ^^ m) s s')
     \<and> (\<forall>j. j \<noteq> i \<longrightarrow> sys_client s' j = sys_client s j)
     \<and> \<Union> (range (logs s')) \<subseteq> \<Union> (range (logs s))
     \<and> ids (sys_server s') = ids (sys_server s) \<union> op_id ` set (outbox i (c_db (sys_client s i)))
     \<and> ids (c_db (sys_client s' i)) = ids (sys_server s')
     \<and> outbox i (c_db (sys_client s' i)) = []
     \<and> res_pushed r = length (outbox i (c_db (sys_client s i)))
     \<and> res_pulled r + card (ids (c_db (sys_client s i))) = card (ids (c_db (sys_client s' i)))
     \<and> (\<forall>j. enrolled env (sys_client s j) (sys_server s) \<longrightarrow> enrolled env (sys_client s' j) (sys_server s'))"

lemma Sync_parts:
  assumes "requireToken c = (Inr t, c)" and "push net cod t c w = (Returns (Inr (k, cs)), c1, w1)"
    and "checkpoint c1 = (Inr since, c1)"
    and "pull_loop fuel net cod phys now t since (0, []) c1 w1 = Some (Returns (Inr u), c2, w2)"
  shows "Sync fuel net cod phys now c w =
    Some (Returns (\<lparr>res_pushed = k, res_pulled = fst u, res_conflicts = cs @ snd u\<rparr>, None), c2, w2)"
  using assms by (simp add: Sync_def pull_def Let_def split: prod.split)

lemma enrolled_token:
  assumes g: "good n s" and e: "enrolled env (sys_client s i) (sys_server s)"
  shows "\<exists>t v. requireToken (sys_client s i) = (Inr t, sys_client s i) \<and> t \<noteq> []
    \<and> find (\<lambda>v. dev_hash v = hashToken (env_sha env) t) (db_devices (sys_server s)) = Some v \<and> dev_id v = i"
  using e client_okD(2,8) [OF goodD(1) [OF g, of i]]
  by (auto simp: enrolled_def requireToken_def GetKV_def)

text \<open>An empty outbox and all of the server's operations: the device is caught up.\<close>

lemma caught_up:
  assumes g: "good n s" and box: "outbox i (c_db (sys_client s i)) = []"
    and all: "ids (sys_server s) \<subseteq> ids (c_db (sys_client s i))"
  shows "ids (c_db (sys_client s i)) = ids (sys_server s)" "logs s i \<subseteq> core ` set (ops (sys_server s))"
proof -
  have "ids (c_db (sys_client s i)) \<subseteq> ids (sys_server s)"
    by (rule acked_all [OF client_okD(6) [OF goodD(1) [OF g]] box])
  with all show "ids (c_db (sys_client s i)) = ids (sys_server s)" by blast
  then show "logs s i \<subseteq> core ` set (ops (sys_server s))"
    using cores_of_ids [OF g client_store [of s i] server_store] by (simp add: logs_def)
qed

lemma ids_take_drop: "ids d = op_id ` set (take k (ops d)) \<union> op_id ` set (drop k (ops d))"
  unfolding ids_def image_Un [symmetric] set_append [symmetric] append_take_drop_id ..

lemma sync_steps:
  fixes i s
  defines "c \<equiv> sys_client s i"
  assumes g: "good n s" and few: "few (n + (3 * card (\<Union> (range (logs s))) + 2))"
    and e: "enrolled env c (sys_server s)" and w: "sv_db w = sys_server s"
    and phys: "\<forall>x. int64 (phys x)" and fuel: "card (\<Union> (range (logs s))) < 100 * fuel"
  shows "\<exists>r c' w'. Sync fuel (server_net env (c_base c)) json_codec phys now c w = Some (Returns (r, None), c', w')
    \<and> synced env i s (set_client i c' (s\<lparr>sys_server := sv_db w'\<rparr>)) r"
proof -
  let ?N = "card (\<Union> (range (logs s)))"
  let ?net = "server_net env (c_base c)"
  obtain t v where tok: "requireToken c = (Inr t, c)" and t: "t \<noteq> []"
    "find (\<lambda>v. dev_hash v = hashToken (env_sha env) t) (db_devices (sys_server s)) = Some v" "dev_id v = i"
    using enrolled_token [OF g e [unfolded c_def]] unfolding c_def by blast
  obtain cs c1 w1 m1 where 1: "push ?net json_codec t c w =
      (Returns (Inr (length (outbox i (c_db c)), cs)), c1, w1)"
    "(step ^^ m1) s (set_client i c1 (s\<lparr>sys_server := sv_db w1\<rparr>))" "m1 \<le> ?N + 1"
    "ids (sv_db w1) = ids (sys_server s) \<union> op_id ` set (outbox i (c_db c))"
    "db_devices (sv_db w1) = db_devices (sys_server s)"
    "outbox i (c_db c1) = []" "ops (c_db c1) = ops (c_db c)" "db_kv (c_db c1) = db_kv (c_db c)"
    "c_device c1 = c_device c" "c_base c1 = c_base c"
    using push_steps [OF g few_mono [OF few] w t] by (auto simp: c_def)
  define s1 where "s1 = set_client i c1 (s\<lparr>sys_server := sv_db w1\<rparr>)"
  have s1: "sys_client s1 i = c1" "sys_server s1 = sv_db w1" by (simp_all add: s1_def)
  have g1: "good (n + m1) s1" "few (n + m1)"
    using good_steps [OF 1(2) g] few_mono [OF few, of "n + m1"] 1(3) by (simp_all add: s1_def)
  have "logs s1 = logs s"
    using 1(7) by (simp add: fun_eq_iff logs_def s1_def c_def)
  then have U1: "\<Union> (range (logs s1)) = \<Union> (range (logs s))" by simp
  let ?d = "sv_db w1"
  have len: "length (ops ?d) \<le> ?N" using log_length [OF g1(1) server_store] by (simp add: s1 U1)
  note cl1 = goodD(1) [OF g1(1), of i, unfolded s1]
  obtain k where k: "checkpoint c1 = (Inr k, c1)" "0 \<le> k" "k \<le> int (length (ops ?d))"
    "op_id ` set (take (nat k) (ops ?d)) \<subseteq> ids (c_db c1)"
    using checkpoint_saved [OF cl1] by blast
  have at: "behind (n + m1) s1 i k"
    using goodD(2) [OF g1(1)] k own_known [OF g1(1), unfolded s1, of _ i, unfolded s1] client_okD(2,8) [OF cl1]
    unfolding behind_def s1 by blast
  have pages: "length (ops ?d) - nat k < 100 * fuel" using len fuel by linarith
  obtain u c2 w2 m2 where 2: "pull_loop fuel ?net json_codec phys now t k (0, []) c1 w1 = Some (Returns (Inr u), c2, w2)"
    "sv_db w2 = ?d" "advanced c1 c2 (op_id ` set (drop (nat k) (ops ?d)))"
    "fst u + card (ids (c_db c1)) = card (ids (c_db c2))"
    "(step ^^ m2) s1 (set_client i c2 s1)" "m2 \<le> 2 * (length (ops ?d) - nat k) + 1"
    using pull_loop_steps [OF at g1(2) phys t(1), of env v w1 fuel now "(0, [])", unfolded s1] t(2) 1(5) pages
    by (auto simp: 1(10))
  define s2 where "s2 = set_client i c2 (s\<lparr>sys_server := sv_db w2\<rparr>)"
  define r where "r = \<lparr>res_pushed = length (outbox i (c_db c)), res_pulled = fst u, res_conflicts = cs @ snd u\<rparr>"
  have run: "Sync fuel ?net json_codec phys now c w = Some (Returns (r, None), c2, w2)"
    unfolding r_def by (rule Sync_parts [OF tok 1(1) k(1) 2(1)])
  have s2: "sys_client s2 i = c2" "sys_server s2 = ?d" "set_client i c2 s1 = s2"
    by (simp_all add: s2_def s1_def 2(2))
  have st: "(step ^^ (m1 + m2)) s s2"
    unfolding relpowp_add using 1(2) [folded s1_def] 2(5) [unfolded s2] by blast
  have m: "m1 + m2 \<le> 3 * ?N + 2" using 1(3) 2(6) len by linarith
  have g2: "good (n + (m1 + m2)) s2"
    by (rule good_steps [OF st g few_mono [OF few]]) (use m in simp)
  have box: "outbox i (c_db c2) = []" using 2(3) 1(6) client_okD(2) [OF cl1] by (simp add: advanced_def)
  have "ids ?d \<subseteq> ids (c_db c2)"
    using ids_take_drop [of ?d "nat k"] k(4) 2(3) by (auto simp: advanced_def)
  then have same: "ids (c_db c2) = ids ?d" and "logs s2 i \<subseteq> core ` set (ops ?d)"
    using caught_up [OF g2, of i] box by (simp_all add: s2)
  note this(2)
  also have "core ` set (ops ?d) \<subseteq> \<Union> (range (logs s))" using goodD(4) [OF g1(1)] by (simp add: s1 U1)
  finally have own2: "logs s2 i \<subseteq> \<Union> (range (logs s))" .
  have "logs s2 j = logs s j" if "j \<noteq> i" for j using that by (simp add: s2_def logs_def)
  with own2 have U2: "\<Union> (range (logs s2)) \<subseteq> \<Union> (range (logs s))"
    by (intro UN_least) (metis UN_upper UNIV_I)
  have "enrolled env (sys_client s2 j) (sys_server s2)" if "enrolled env (sys_client s j) (sys_server s)" for j
    by (rule enrolled_same [OF that])
      (use 1(5,8,9) 2(3) in \<open>auto simp: s2 s2_def 2(2) c_def advanced_def\<close>)
  moreover have "sys_client s2 j = sys_client s j" if "j \<noteq> i" for j using that by (simp add: s2_def)
  moreover have "ids (c_db c1) = ids (c_db c)" by (simp add: ids_def 1(7))
  ultimately have "synced env i s s2 r"
    unfolding synced_def using st m U2 1(4) same box 2(4) by (auto simp: s2 r_def c_def)
  with run show ?thesis unfolding s2_def by blast
qed

end
