(* ===== verification/SyncRounds.thy ===== *)
theory SyncRounds
  imports SyncExchange
begin

text \<open>
  Syncs of several devices in turn, as the demonstration and the integration test make them, and
  what they promise: a registered device is let in, one sync leaves a device with the server's
  records, and two rounds in any order leave all devices with the same records.
\<close>

section \<open>One sync\<close>

lemma run_sync:
  assumes r: "run url n s" and n: "n < 2 ^ 30 - 1"
    and e: "enrolled env (sys_client s i) (sys_server s)" and w: "sv_db w = sys_server s"
    and phys: "\<forall>x. int64 (phys x)" and fuel: "n < 100 * fuel"
  shows "\<exists>r c' w'. Sync fuel (server_net env (c_base (sys_client s i))) json_codec phys now (sys_client s i) w
      = Some (Returns (r, None), c', w')
    \<and> synced env i s (set_client i c' (s\<lparr>sys_server := sv_db w'\<rparr>)) r"
proof -
  have "few n" using n by (simp add: few_def)
  with r have g: "good n s" by (rule run_good)
  have "few (n + (3 * card (\<Union> (range (logs s))) + 2))"
    using goodD(6) [OF g] n by (simp add: few_def)
  moreover have "card (\<Union> (range (logs s))) < 100 * fuel" using goodD(6) [OF g] fuel by linarith
  ultimately show ?thesis using sync_steps [OF g _ e w phys] by blast
qed

lemma synced_run:
  assumes r: "run url n s" and n: "n < 2 ^ 30 - 1" and y: "synced env i s s' r"
  shows "\<exists>m \<le> 3 * n + 2. (step ^^ m) s s' \<and> run url (n + m) s' \<and> good (n + m) s'"
proof -
  have "few n" using n by (simp add: few_def)
  with r have g: "good n s" by (rule run_good)
  obtain m where m: "(step ^^ m) s s'" "m \<le> 3 * card (\<Union> (range (logs s))) + 2"
    using y unfolding synced_def by blast
  then have le: "m \<le> 3 * n + 2" using goodD(6) [OF g] by linarith
  then have "few (n + m)" using n by (simp add: few_def)
  with good_steps [OF m(1) g] run_steps [OF r m(1)] m(1) le show ?thesis by blast
qed

text \<open>C4: A sync of a registered device with the server's handler, as it stands in any run, returns
  without an error after pages enough for the operations there are. It pushes exactly the
  outbox, which is then empty; the server has its old operations and those of the outbox; the
  device has exactly the server's operations and records, and the result counts what it pushed
  and what is new to it.\<close>

theorem sync_catches_up:
  assumes "run url n s" and "n < 2 ^ 30 - 1"
    and "enrolled env (sys_client s i) (sys_server s)" and "sv_db w = sys_server s"
    and "\<forall>x. int64 (phys x)" and "n < 100 * fuel"
  shows "\<exists>r c' w'. Sync fuel (server_net env (c_base (sys_client s i))) json_codec phys now (sys_client s i) w
      = Some (Returns (r, None), c', w')
    \<and> view (c_db c') = view (sv_db w') \<and> ids (c_db c') = ids (sv_db w') \<and> outbox i (c_db c') = []
    \<and> ids (sv_db w') = ids (sys_server s) \<union> op_id ` set (outbox i (c_db (sys_client s i)))
    \<and> res_pushed r = length (outbox i (c_db (sys_client s i)))
    \<and> res_pulled r + card (ids (c_db (sys_client s i))) = card (ids (c_db c'))"
proof -
  obtain r c' w' where run: "Sync fuel (server_net env (c_base (sys_client s i))) json_codec phys now (sys_client s i) w
      = Some (Returns (r, None), c', w')"
    and y: "synced env i s (set_client i c' (s\<lparr>sys_server := sv_db w'\<rparr>)) r"
    using run_sync [OF assms] by blast
  obtain m where g: "good (n + m) (set_client i c' (s\<lparr>sys_server := sv_db w'\<rparr>))"
    using synced_run [OF assms(1,2) y] by blast
  have "ids (c_db c') = ids (sv_db w')" using y by (simp add: synced_def)
  then have "view (c_db c') = view (sv_db w')"
    using same_ids_same_view [OF g client_store [of _ i] server_store] by simp
  with run y show ?thesis by (auto simp: synced_def)
qed


section \<open>Registration\<close>

lemma register_request:
  assumes f: "db_faults (sv_db w) = []" and n: "\<not> trim_space_empty i" "\<not> trim_space_empty name"
    and buf: "env_random env (sv_served w) = Inr buf"
  shows "doJSON (server_net env base) base pol ''POST'' ''/v1/devices/register'' []
      (Some (Inr (enc_register_request \<lparr>rq_device = i, rq_name = name\<rparr>))) dec_register_response w =
    (Returns (Inr \<lparr>rs_device = i, rs_token = hex_encode buf\<rparr>),
     w\<lparr>sv_served := sv_served w + 1,
       sv_db := registered (env_sha env) buf (env_time env (sv_served w)) \<lparr>rq_device = i, rq_name = name\<rparr> (sv_db w)\<rparr>)"
proof (rule server_call [where bytes = "Some (enc_register_request \<lparr>rq_device = i, rq_name = name\<rparr>)"
      and resp = "writeJSON 201 (enc_register_response \<lparr>rs_device = i, rs_token = hex_encode buf\<rparr>)"])
  have "decode_body dec_register_request (Some (enc_register_request \<lparr>rq_device = i, rq_name = name\<rparr>))
      = Inr \<lparr>rq_device = i, rq_name = name\<rparr>"
    by (simp add: decode_body_def js_register_request.dec_enc)
  then show "Handler env ''POST'' ''/v1/devices/register'' (if [] = [] then [] else ''Bearer '' @ [])
      (Some (enc_register_request \<lparr>rq_device = i, rq_name = name\<rparr>)) w =
      (writeJSON 201 (enc_register_response \<lparr>rs_device = i, rs_token = hex_encode buf\<rparr>),
       w\<lparr>sv_served := sv_served w + 1,
         sv_db := registered (env_sha env) buf (env_time env (sv_served w)) \<lparr>rq_device = i, rq_name = name\<rparr> (sv_db w)\<rparr>)"
    using handleRegisterDevice_ok [OF f, of "\<lparr>rq_device = i, rq_name = name\<rparr>"] n
    by (simp add: route_register run_route_def buf)
qed (simp_all add: writeJSON_def js_register_response.dec_enc)

definition with_token :: "string \<Rightarrow> client \<Rightarrow> client" where
  "with_token t c = c\<lparr>c_db := snd (SetKV kvDeviceToken t (c_db c))\<rparr>"

lemma Register_ok:
  assumes c: "db_faults (c_db c) = []" and f: "db_faults (sv_db w) = []"
    and n: "\<not> trim_space_empty (c_device c)" "\<not> trim_space_empty name"
    and buf: "env_random env (sv_served w) = Inr buf"
  shows "Register (server_net env (c_base c)) json_codec name c w =
    (Returns (Inr ()), with_token (hex_encode buf) c,
     w\<lparr>sv_served := sv_served w + 1,
       sv_db := registered (env_sha env) buf (env_time env (sv_served w)) \<lparr>rq_device = c_device c, rq_name = name\<rparr> (sv_db w)\<rparr>)"
  using register_request [OF f n buf, of "c_base c" "c_policy c"] c
  by (simp add: Register_def json_codec_def with_db_def with_token_def SetKV_def store_simps Let_def)

lemma with_token_fields [simp]:
  assumes "db_faults (c_db c) = []"
  shows "fmlookup (db_kv (c_db (with_token t c))) kvDeviceToken = Some t"
    "c_device (with_token t c) = c_device c" "ops (c_db (with_token t c)) = ops (c_db c)"
    "view (c_db (with_token t c)) = view (c_db c)" "c_clock (with_token t c) = c_clock c"
    "db_faults (c_db (with_token t c)) = []" "c_base (with_token t c) = c_base c"
  using assms by (simp_all add: with_token_def SetKV_def store_simps view_def fun_eq_iff)

lemma registered_tables [simp]:
  "ops (registered sha b t q d) = ops d" "view (registered sha b t q d) = view d"
  "db_faults (registered sha b t q d) = db_faults d"
  by (simp_all add: registered_def view_def fun_eq_iff)

lemma enrolled_register:
  assumes "db_faults (c_db c) = []" and "buf \<noteq> []"
    and "\<forall>v \<in> set (db_devices d). dev_hash v = hashToken (env_sha env) (hex_encode buf) \<longrightarrow> dev_id v = c_device c"
  shows "enrolled env (with_token (hex_encode buf) c)
    (registered (env_sha env) buf now \<lparr>rq_device = c_device c, rq_name = name\<rparr> d)"
proof -
  have "\<exists>v. find (\<lambda>e. dev_hash e = hashToken (env_sha env) (hex_encode buf))
      (db_devices (registered (env_sha env) buf now \<lparr>rq_device = c_device c, rq_name = name\<rparr> d)) = Some v
      \<and> dev_id v = c_device c"
    using find_upsert_hash [of "db_devices d" "\<lparr>dev_id = c_device c, dev_name = name,
        dev_hash = hashToken (env_sha env) (hex_encode buf), dev_created = now\<rparr>"] assms(3)
    by (simp add: registered_def)
  with assms(1,2) show ?thesis by (simp add: enrolled_def)
qed

lemma find_upsert_other:
  "find (\<lambda>e. dev_hash e = h) ds = Some v \<Longrightarrow> dev_id v \<noteq> dev_id d \<Longrightarrow> h \<noteq> dev_hash d \<Longrightarrow>
   find (\<lambda>e. dev_hash e = h) (upsert_device d ds) = Some v"
  by (induction d ds rule: upsert_device.induct) (auto split: if_splits)

lemma enrolled_other:
  assumes "enrolled env c d" and "c_device c \<noteq> rq_device q"
    and "\<And>t. fmlookup (db_kv (c_db c)) kvDeviceToken = Some t \<Longrightarrow>
      hashToken (env_sha env) t \<noteq> hashToken (env_sha env) (hex_encode buf)"
  shows "enrolled env c (registered (env_sha env) buf now q d)"
  using assms find_upsert_other
  by (fastforce simp: enrolled_def registered_def)

text \<open>C17: Registering a device, through client and server, succeeds and lets the device in: the token
  it stores is the server's for its id. The token's digest must not be another device's, and
  neither id nor name may be blank. The log and the records on both sides stay.\<close>

theorem register_enrols:
  assumes "db_faults (c_db c) = []" and "db_faults (sv_db w) = []"
    and "\<not> trim_space_empty (c_device c)" and "\<not> trim_space_empty name"
    and "env_random env (sv_served w) = Inr buf" and "buf \<noteq> []"
    and "\<forall>v \<in> set (db_devices (sv_db w)).
      dev_hash v = hashToken (env_sha env) (hex_encode buf) \<longrightarrow> dev_id v = c_device c"
  shows "\<exists>c' w'. Register (server_net env (c_base c)) json_codec name c w = (Returns (Inr ()), c', w')
    \<and> enrolled env c' (sv_db w') \<and> ops (c_db c') = ops (c_db c) \<and> view (c_db c') = view (c_db c)
    \<and> ops (sv_db w') = ops (sv_db w) \<and> view (sv_db w') = view (sv_db w)"
  using enrolled_register [OF assms(1,6,7)] assms(1) by (simp add: Register_ok [OF assms(1-5)])

text \<open>In a run, a registration is two steps.\<close>

lemma register_run:
  assumes r: "run url n s" and few: "few n" and w: "sv_db w = sys_server s"
    and names: "\<not> trim_space_empty i" "\<not> trim_space_empty name"
    and buf: "env_random env (sv_served w) = Inr buf"
  shows "\<exists>w'. Register (server_net env (c_base (sys_client s i))) json_codec name (sys_client s i) w =
      (Returns (Inr ()), with_token (hex_encode buf) (sys_client s i), w')
    \<and> run url (n + 2) (set_client i (with_token (hex_encode buf) (sys_client s i)) (s\<lparr>sys_server := sv_db w'\<rparr>))
    \<and> sv_db w' = registered (env_sha env) buf (env_time env (sv_served w))
        \<lparr>rq_device = i, rq_name = name\<rparr> (sys_server s)
    \<and> sv_served w' = sv_served w + 1"
proof -
  note g = run_good [OF r few]
  note cl = goodD(1) [OF g, of i] and srv = goodD(2) [OF g]
  define q where "q = \<lparr>rq_device = i, rq_name = name\<rparr>"
  define d where "d = registered (env_sha env) buf (env_time env (sv_served w)) q (sys_server s)"
  have "snd (handleRegisterDevice (env_sha env) (Inr buf) (env_time env (sv_served w)) (Inr q) (sys_server s)) = d"
    using handleRegisterDevice_ok [OF server_okD(5) [OF srv], of q] names by (simp add: q_def d_def)
  then have st: "step s (s\<lparr>sys_server := d\<rparr>)"
    using step.Enrol [of s "env_sha env" buf "env_time env (sv_served w)" q] by simp
  have tok: "step (s\<lparr>sys_server := d\<rparr>)
      (set_client i (with_token (hex_encode buf) (sys_client s i)) (s\<lparr>sys_server := d\<rparr>))"
    using step.Token [of "s\<lparr>sys_server := d\<rparr>" i "hex_encode buf"] by (simp add: with_token_def)
  have "run url (n + 2) (set_client i (with_token (hex_encode buf) (sys_client s i)) (s\<lparr>sys_server := d\<rparr>))"
    using run.Step [OF run.Step [OF r st] tok] by (simp add: numeral_2_eq_2)
  moreover have "db_faults (sv_db w) = []" using server_okD(5) [OF srv] w by simp
  note Register_ok [OF client_okD(8) [OF cl] this _ names(2) buf, unfolded client_okD(2) [OF cl], OF names(1)]
  ultimately show ?thesis by (simp add: w d_def q_def)
qed

section \<open>Rounds\<close>

text \<open>The loop \<open>for _, d := range devices { d.Sync(ctx) }\<close> over devices by their ids, which stops at the
  first error; \<open>phys\<close> gives each device's wall clock.\<close>

fun sync_all :: "nat \<Rightarrow> server_env \<Rightarrow> (string \<Rightarrow> op \<Rightarrow> int) \<Rightarrow> (op \<Rightarrow> time) \<Rightarrow> string list
    \<Rightarrow> (string \<Rightarrow> client) \<Rightarrow> server_state
    \<Rightarrow> (sync_result list result call \<times> (string \<Rightarrow> client) \<times> server_state) option" where
  "sync_all fuel env phys now [] cl w = Some (Returns (Inr []), cl, w)"
| "sync_all fuel env phys now (i # is) cl w =
     (case Sync fuel (server_net env (c_base (cl i))) json_codec (phys i) now (cl i) w of
        None \<Rightarrow> None
      | Some (Panics, c, w1) \<Rightarrow> Some (Panics, cl(i := c), w1)
      | Some (Returns (r, Some e), c, w1) \<Rightarrow> Some (Returns (Inl e), cl(i := c), w1)
      | Some (Returns (r, None), c, w1) \<Rightarrow>
          (case sync_all fuel env phys now is (cl(i := c)) w1 of
             None \<Rightarrow> None
           | Some (Panics, cl', w') \<Rightarrow> Some (Panics, cl', w')
           | Some (Returns (Inl e), cl', w') \<Rightarrow> Some (Returns (Inl e), cl', w')
           | Some (Returns (Inr rs), cl', w') \<Rightarrow> Some (Returns (Inr (r # rs)), cl', w')))"

text \<open>What the syncs of a list of devices do to the system.\<close>

definition all_synced :: "server_env \<Rightarrow> string list \<Rightarrow> system \<Rightarrow> system \<Rightarrow> bool" where
  "all_synced env is s s' \<longleftrightarrow>
     (\<exists>m \<le> length is * (3 * card (\<Union> (range (logs s))) + 2). (step ^^ m) s s')
     \<and> \<Union> (range (logs s')) \<subseteq> \<Union> (range (logs s))
     \<and> ids (sys_server s') = ids (sys_server s) \<union> (\<Union>i \<in> set is. op_id ` set (outbox i (c_db (sys_client s i))))
     \<and> (\<forall>j. j \<in> set is \<or> outbox j (c_db (sys_client s j)) = [] \<longrightarrow> outbox j (c_db (sys_client s' j)) = [])
     \<and> ((\<forall>j \<in> set is. outbox j (c_db (sys_client s j)) = []) \<longrightarrow>
          (\<forall>j \<in> set is. ids (c_db (sys_client s' j)) = ids (sys_server s')))
     \<and> (\<forall>j. enrolled env (sys_client s j) (sys_server s) \<longrightarrow> enrolled env (sys_client s' j) (sys_server s'))
     \<and> (\<forall>j. j \<notin> set is \<longrightarrow> sys_client s' j = sys_client s j)"

lemma all_synced_Nil: "all_synced env [] s s"
  by (simp add: all_synced_def)

lemma steps_bound:
  assumes "card U' \<le> card U" and "(m :: nat) \<le> 3 * card U + 2" and "k \<le> l * (3 * card U' + 2)"
  shows "m + k \<le> Suc l * (3 * card U + 2)"
proof -
  have "l * (3 * card U' + 2) \<le> l * (3 * card U + 2)"
    by (rule mult_le_mono2) (use assms(1) in simp)
  with assms(2,3) show ?thesis unfolding mult_Suc by linarith
qed

lemma syncedD:
  assumes "synced env i s s' r"
  shows "\<exists>m \<le> 3 * card (\<Union> (range (logs s))) + 2. (step ^^ m) s s'"
    and "j \<noteq> i \<Longrightarrow> sys_client s' j = sys_client s j"
    and "\<Union> (range (logs s')) \<subseteq> \<Union> (range (logs s))"
    and "ids (sys_server s') = ids (sys_server s) \<union> op_id ` set (outbox i (c_db (sys_client s i)))"
    and "ids (c_db (sys_client s' i)) = ids (sys_server s')"
    and "outbox i (c_db (sys_client s' i)) = []"
    and "enrolled env (sys_client s j) (sys_server s) \<Longrightarrow> enrolled env (sys_client s' j) (sys_server s')"
  using assms unfolding synced_def by (blast, blast, blast, blast, blast, blast, blast)

lemma all_syncedD:
  assumes "all_synced env is s s'"
  shows "\<exists>m \<le> length is * (3 * card (\<Union> (range (logs s))) + 2). (step ^^ m) s s'"
    and "\<Union> (range (logs s')) \<subseteq> \<Union> (range (logs s))"
    and "ids (sys_server s') = ids (sys_server s) \<union> (\<Union>i \<in> set is. op_id ` set (outbox i (c_db (sys_client s i))))"
    and "j \<in> set is \<or> outbox j (c_db (sys_client s j)) = [] \<Longrightarrow> outbox j (c_db (sys_client s' j)) = []"
    and "\<forall>j \<in> set is. outbox j (c_db (sys_client s j)) = [] \<Longrightarrow> j \<in> set is \<Longrightarrow>
      ids (c_db (sys_client s' j)) = ids (sys_server s')"
    and "enrolled env (sys_client s j) (sys_server s) \<Longrightarrow> enrolled env (sys_client s' j) (sys_server s')"
    and "j \<notin> set is \<Longrightarrow> sys_client s' j = sys_client s j"
  using assms unfolding all_synced_def by (blast, blast, blast, blast, blast, blast, blast)

lemma UN_except: "B i \<union> (\<Union>j \<in> I. if j = i then {} else B j) = (\<Union>j \<in> insert i I. B j)"
  by (auto split: if_splits)

lemma all_synced_Cons:
  assumes f: "finite (\<Union> (range (logs s)))" and 1: "synced env i s s1 r" and 2: "all_synced env is s1 s2"
  shows "all_synced env (i # is) s s2"
  unfolding all_synced_def
proof (intro conjI allI impI ballI)
  note d1 = syncedD [OF 1] and d2 = all_syncedD [OF 2]
  have box: "outbox j (c_db (sys_client s1 j)) = (if j = i then [] else outbox j (c_db (sys_client s j)))" for j
    using d1(2) d1(6) by simp
  show "\<exists>m \<le> length (i # is) * (3 * card (\<Union> (range (logs s))) + 2). (step ^^ m) s s2"
  proof -
    obtain m where m: "m \<le> 3 * card (\<Union> (range (logs s))) + 2" "(step ^^ m) s s1" using d1(1) by blast
    obtain k where k: "k \<le> length is * (3 * card (\<Union> (range (logs s1))) + 2)" "(step ^^ k) s1 s2"
      using d2(1) by blast
    have "(step ^^ (m + k)) s s2" unfolding relpowp_add using m(2) k(2) by blast
    moreover have "m + k \<le> length (i # is) * (3 * card (\<Union> (range (logs s))) + 2)"
      using steps_bound [OF card_mono [OF f d1(3)] m(1) k(1)] by simp
    ultimately show ?thesis by blast
  qed
  show "\<Union> (range (logs s2)) \<subseteq> \<Union> (range (logs s))" by (rule subset_trans [OF d2(2) d1(3)])
  show "ids (sys_server s2) = ids (sys_server s) \<union> (\<Union>j \<in> set (i # is). op_id ` set (outbox j (c_db (sys_client s j))))"
  proof -
    have "op_id ` set (outbox j (c_db (sys_client s1 j))) =
        (if j = i then {} else op_id ` set (outbox j (c_db (sys_client s j))))" for j
      by (simp add: box)
    then show ?thesis
      using UN_except [of "\<lambda>j. op_id ` set (outbox j (c_db (sys_client s j)))" i "set is"]
      unfolding d2(3) d1(4) by (simp add: Un_assoc)
  qed
  show "outbox j (c_db (sys_client s2 j)) = []"
    if "j \<in> set (i # is) \<or> outbox j (c_db (sys_client s j)) = []" for j
    by (rule d2(4)) (use that box in auto)
  show "ids (c_db (sys_client s2 j)) = ids (sys_server s2)"
    if e: "\<forall>j \<in> set (i # is). outbox j (c_db (sys_client s j)) = []" and j: "j \<in> set (i # is)" for j
  proof -
    have all: "\<forall>j \<in> set is. outbox j (c_db (sys_client s1 j)) = []" using e box by simp
    then have srv: "ids (sys_server s2) = ids (sys_server s1)" using d2(3) by simp
    show ?thesis
    proof (cases "j \<in> set is")
      case False
      then have "sys_client s2 j = sys_client s1 j" "j = i" using d2(7) j by auto
      then show ?thesis using d1(5) srv by simp
    qed (rule d2(5) [OF all])
  qed
  show "enrolled env (sys_client s2 j) (sys_server s2)" if "enrolled env (sys_client s j) (sys_server s)" for j
    by (rule d2(6) [OF d1(7) [OF that]])
  show "sys_client s2 j = sys_client s j" if "j \<notin> set (i # is)" for j
    using that d1(2) d2(7) by simp
qed

lemma sync_all_steps:
  assumes "good n s" and "few (n + length is * (3 * card (\<Union> (range (logs s))) + 2))"
    and "\<forall>i \<in> set is. enrolled env (sys_client s i) (sys_server s)" and "sv_db w = sys_server s"
    and "\<forall>i x. int64 (phys i x)" and "card (\<Union> (range (logs s))) < 100 * fuel"
  shows "\<exists>rs s' w'. sync_all fuel env phys now is (sys_client s) w = Some (Returns (Inr rs), sys_client s', w')
    \<and> sv_db w' = sys_server s' \<and> all_synced env is s s'"
  using assms
proof (induction "is" arbitrary: n s w)
  case Nil
  have "sync_all fuel env phys now [] (sys_client s) w = Some (Returns (Inr []), sys_client s, w)" by simp
  with Nil.prems(4) all_synced_Nil show ?case by blast
next
  case (Cons i "is")
  let ?N = "card (\<Union> (range (logs s)))"
  have few: "few (n + (3 * ?N + 2))" by (rule few_mono [OF Cons.prems(2)]) simp
  have e: "enrolled env (sys_client s i) (sys_server s)" using Cons.prems(3) by simp
  have ph: "\<forall>x. int64 (phys i x)" using Cons.prems(5) by blast
  obtain r c1 w1 where 1: "Sync fuel (server_net env (c_base (sys_client s i))) json_codec (phys i) now (sys_client s i) w
      = Some (Returns (r, None), c1, w1)"
    and y: "synced env i s (set_client i c1 (s\<lparr>sys_server := sv_db w1\<rparr>)) r"
    using sync_steps [OF Cons.prems(1) few e Cons.prems(4) ph Cons.prems(6)] by blast
  define s1 where "s1 = set_client i c1 (s\<lparr>sys_server := sv_db w1\<rparr>)"
  have s1: "sys_client s1 = (sys_client s)(i := c1)" "sv_db w1 = sys_server s1"
    by (simp_all add: s1_def set_client_def)
  note y1 = syncedD [OF y [folded s1_def]]
  obtain m where m: "m \<le> 3 * ?N + 2" "(step ^^ m) s s1" using y1(1) by blast
  have g1: "good (n + m) s1"
    by (rule good_steps [OF m(2) Cons.prems(1) few_mono [OF few]]) (use m(1) in simp)
  have le: "card (\<Union> (range (logs s1))) \<le> ?N"
    by (rule card_mono [OF goodD(5) [OF Cons.prems(1)] y1(3)])
  then have "n + m + length is * (3 * card (\<Union> (range (logs s1))) + 2) \<le> n + length (i # is) * (3 * ?N + 2)"
    using steps_bound [OF le m(1) le_refl, of "length is"] by simp
  then have few1: "few (n + m + length is * (3 * card (\<Union> (range (logs s1))) + 2))"
    by (rule few_mono [OF Cons.prems(2)])
  have e1: "\<forall>j \<in> set is. enrolled env (sys_client s1 j) (sys_server s1)"
    using Cons.prems(3) y1(7) by simp
  have fuel: "card (\<Union> (range (logs s1))) < 100 * fuel" using le Cons.prems(6) by linarith
  obtain rs s2 w2 where 2: "sync_all fuel env phys now is (sys_client s1) w1 = Some (Returns (Inr rs), sys_client s2, w2)"
    "sv_db w2 = sys_server s2" "all_synced env is s1 s2"
    using Cons.IH [OF g1 few1 e1 s1(2) Cons.prems(5) fuel] by blast
  have "sync_all fuel env phys now (i # is) (sys_client s) w = Some (Returns (Inr (r # rs)), sys_client s2, w2)"
    using 1 2(1) by (simp add: s1(1))
  with 2(2) all_synced_Cons [OF goodD(5) [OF Cons.prems(1)] y [folded s1_def] 2(3)] show ?case by blast
qed

lemma sync_all_append:
  assumes "sync_all fuel env phys now is cl w = Some (Returns (Inr rs), cl1, w1)"
  shows "sync_all fuel env phys now (is @ js) cl w =
    (case sync_all fuel env phys now js cl1 w1 of
       None \<Rightarrow> None
     | Some (Panics, cl', w') \<Rightarrow> Some (Panics, cl', w')
     | Some (Returns (Inl e), cl', w') \<Rightarrow> Some (Returns (Inl e), cl', w')
     | Some (Returns (Inr qs), cl', w') \<Rightarrow> Some (Returns (Inr (rs @ qs)), cl', w'))"
  using assms
proof (induction "is" arbitrary: cl w rs)
  case Nil
  then show ?case by (auto split: option.splits call.splits sum.splits)
next
  case (Cons i "is")
  then show ?case
    by (auto split: option.splits call.splits sum.splits prod.splits)
qed

lemma sync_all_split:
  assumes "sync_all fuel env phys now (is @ js) cl w = Some (Returns (Inr rs), cl2, w2)"
  shows "\<exists>ps cl1 w1 qs. sync_all fuel env phys now is cl w = Some (Returns (Inr ps), cl1, w1)
    \<and> sync_all fuel env phys now js cl1 w1 = Some (Returns (Inr qs), cl2, w2)"
  using assms
proof (induction "is" arbitrary: cl w rs)
  case (Cons i "is")
  obtain r c w1 where 1: "Sync fuel (server_net env (c_base (cl i))) json_codec (phys i) now (cl i) w =
      Some (Returns (r, None), c, w1)"
    using Cons.prems by (auto split: option.splits call.splits)
  with Cons.prems obtain rs' where "sync_all fuel env phys now (is @ js) (cl(i := c)) w1 = Some (Returns (Inr rs'), cl2, w2)"
    by (auto split: option.splits call.splits sum.splits)
  from Cons.IH [OF this] obtain ps cl1 w3 qs where
    "sync_all fuel env phys now is (cl(i := c)) w1 = Some (Returns (Inr ps), cl1, w3)"
    "sync_all fuel env phys now js cl1 w3 = Some (Returns (Inr qs), cl2, w2)" by blast
  with 1 show ?case by (intro exI [of _ "r # ps"] exI [of _ cl1] exI [of _ w3] exI [of _ qs]) simp
qed simp

lemma outbox_ids:
  assumes "good n s"
  shows "ids (sys_server s) \<union> op_id ` set (outbox i (c_db (sys_client s i))) =
    ids (sys_server s) \<union> ids (c_db (sys_client s i))"
proof -
  note cl = goodD(1) [OF assms, of i]
  have "ids (c_db (sys_client s i)) \<subseteq> ids (sys_server s) \<union> op_id ` set (outbox i (c_db (sys_client s i)))"
    using client_okD(6) [OF cl] by (force simp: ids_def ops_def outbox_def acked_def)
  moreover have "op_id ` set (outbox i (c_db (sys_client s i))) \<subseteq> ids (c_db (sys_client s i))"
    using outbox_member by (auto simp: ids_def)
  ultimately show ?thesis by blast
qed

lemma UN_absorb: "(\<And>i. A \<union> B i = A \<union> C i) \<Longrightarrow> A \<union> (\<Union>i \<in> I. B i) = A \<union> (\<Union>i \<in> I. C i)"
  by blast

lemma two_rounds_good:
  assumes g: "good n s" and few: "few (n + 2 * length is * (3 * card (\<Union> (range (logs s))) + 2))"
    and e: "\<forall>i \<in> set is. enrolled env (sys_client s i) (sys_server s)" and w: "sv_db w = sys_server s"
    and phys: "\<forall>i x. int64 (phys i x)" and fuel: "card (\<Union> (range (logs s))) < 100 * fuel"
  shows "\<exists>rs s2 w2 m. sync_all fuel env phys now (is @ is) (sys_client s) w = Some (Returns (Inr rs), sys_client s2, w2)
    \<and> sv_db w2 = sys_server s2 \<and> (step ^^ m) s s2
    \<and> m \<le> 2 * length is * (3 * card (\<Union> (range (logs s))) + 2)
    \<and> (\<forall>i \<in> set is. view (c_db (sys_client s2 i)) = view (sys_server s2)
         \<and> ids (c_db (sys_client s2 i)) = ids (sys_server s2) \<and> outbox i (c_db (sys_client s2 i)) = [])
    \<and> ids (sys_server s2) = ids (sys_server s) \<union> (\<Union>i \<in> set is. ids (c_db (sys_client s i)))
    \<and> \<Union> (range (logs s2)) \<subseteq> \<Union> (range (logs s))"
proof -
  let ?N = "card (\<Union> (range (logs s)))"
  define M where "M = length is * (3 * ?N + 2)"
  have two: "2 * length is * (3 * ?N + 2) = M + M" by (simp add: M_def algebra_simps)
  note few = few [unfolded two]
  have few0: "few (n + M)" by (rule few_mono [OF few]) simp
  obtain rs s1 w1 where 1: "sync_all fuel env phys now is (sys_client s) w = Some (Returns (Inr rs), sys_client s1, w1)"
    "sv_db w1 = sys_server s1" "all_synced env is s s1"
    using sync_all_steps [OF g few0 [unfolded M_def] e w phys fuel] by blast
  note a1 = all_syncedD [OF 1(3)]
  obtain m where m: "m \<le> M" "(step ^^ m) s s1" using a1(1) unfolding M_def by blast
  have le: "card (\<Union> (range (logs s1))) \<le> ?N" by (rule card_mono [OF goodD(5) [OF g] a1(2)])
  have le': "length is * (3 * card (\<Union> (range (logs s1))) + 2) \<le> M"
    unfolding M_def by (rule mult_le_mono2) (use le in simp)
  have g1: "good (n + m) s1" by (rule good_steps [OF m(2) g few_mono [OF few0]]) (use m(1) in simp)
  have few1: "few (n + m + length is * (3 * card (\<Union> (range (logs s1))) + 2))"
    by (rule few_mono [OF few]) (use m(1) le' in linarith)
  have e1: "\<forall>i \<in> set is. enrolled env (sys_client s1 i) (sys_server s1)" using e a1(6) by blast
  have fuel1: "card (\<Union> (range (logs s1))) < 100 * fuel" using le fuel by linarith
  obtain qs s2 w2 where 2: "sync_all fuel env phys now is (sys_client s1) w1 = Some (Returns (Inr qs), sys_client s2, w2)"
    "sv_db w2 = sys_server s2" "all_synced env is s1 s2"
    using sync_all_steps [OF g1 few1 e1 1(2) phys fuel1] by blast
  note a2 = all_syncedD [OF 2(3)]
  obtain k where k: "k \<le> length is * (3 * card (\<Union> (range (logs s1))) + 2)" "(step ^^ k) s1 s2" using a2(1) by blast
  have st: "(step ^^ (m + k)) s s2" unfolding relpowp_add using m(2) k(2) by blast
  have mk: "m + k \<le> 2 * length is * (3 * ?N + 2)" unfolding two using m(1) k(1) le' by linarith
  have g2: "good (n + (m + k)) s2" by (rule good_steps [OF st g few_mono [OF few]]) (use mk [unfolded two] in simp)
  have empty: "\<forall>j \<in> set is. outbox j (c_db (sys_client s1 j)) = []" using a1(4) by blast
  have ids2: "\<forall>i \<in> set is. ids (c_db (sys_client s2 i)) = ids (sys_server s2)" using a2(5) [OF empty] by blast
  moreover have "\<forall>i \<in> set is. view (c_db (sys_client s2 i)) = view (sys_server s2)"
    using same_ids_same_view [OF g2 client_store server_store] ids2 by blast
  moreover have "\<forall>i \<in> set is. outbox i (c_db (sys_client s2 i)) = []" using a2(4) by blast
  moreover have "ids (sys_server s2) = ids (sys_server s) \<union> (\<Union>i \<in> set is. ids (c_db (sys_client s i)))"
  proof -
    have "ids (sys_server s2) = ids (sys_server s1)" using a2(3) empty by simp
    also have "\<dots> = ids (sys_server s) \<union> (\<Union>i \<in> set is. op_id ` set (outbox i (c_db (sys_client s i))))"
      by (rule a1(3))
    also have "\<dots> = ids (sys_server s) \<union> (\<Union>i \<in> set is. ids (c_db (sys_client s i)))"
      by (rule UN_absorb) (rule outbox_ids [OF g])
    finally show ?thesis .
  qed
  moreover have "sync_all fuel env phys now (is @ is) (sys_client s) w = Some (Returns (Inr (rs @ qs)), sys_client s2, w2)"
    unfolding sync_all_append [OF 1(1)] 2(1) by simp
  ultimately show ?thesis
    using 2(2) st mk subset_trans [OF a2(2) a1(2)] by blast
qed

lemma two_rounds:
  assumes r: "run url n s" and n: "n + 2 * length is * (3 * n + 2) < 2 ^ 32 - 1"
    and e: "\<forall>i \<in> set is. enrolled env (sys_client s i) (sys_server s)" and w: "sv_db w = sys_server s"
    and phys: "\<forall>i x. int64 (phys i x)" and fuel: "n < 100 * fuel"
  shows "\<exists>rs cl w'. sync_all fuel env phys now (is @ is) (sys_client s) w = Some (Returns (Inr rs), cl, w')
    \<and> (\<forall>i \<in> set is. view (c_db (cl i)) = view (sv_db w') \<and> ids (c_db (cl i)) = ids (sv_db w')
         \<and> outbox i (c_db (cl i)) = [])
    \<and> ids (sv_db w') = ids (sys_server s) \<union> (\<Union>i \<in> set is. ids (c_db (sys_client s i)))"
proof -
  have few: "few n" using n by (simp add: few_def)
  note g = run_good [OF r few]
  have "2 * length is * (3 * card (\<Union> (range (logs s))) + 2) \<le> 2 * length is * (3 * n + 2)"
    by (rule mult_le_mono2) (use goodD(6) [OF g] in simp)
  then have few': "few (n + 2 * length is * (3 * card (\<Union> (range (logs s))) + 2))"
    unfolding few_def using n by linarith
  have "card (\<Union> (range (logs s))) < 100 * fuel" using goodD(6) [OF g] fuel by linarith
  from two_rounds_good [OF g few' e w phys this, of now] show ?thesis by (elim exE conjE) auto
qed

text \<open>C2: Two rounds of syncs over registered devices, in any order and as they stand in any run, return
  without an error and leave all these devices with the server's records and with empty
  outboxes. The server then has its old operations and all those of the devices.\<close>

theorem two_rounds_converge:
  assumes "run url n s" and "n + 2 * length is * (3 * n + 2) < 2 ^ 32 - 1"
    and "\<forall>i \<in> set is. enrolled env (sys_client s i) (sys_server s)" and "sv_db w = sys_server s"
    and "\<forall>i x. int64 (phys i x)" and "n < 100 * fuel"
  shows "\<exists>rs cl w'. sync_all fuel env phys now (is @ is) (sys_client s) w = Some (Returns (Inr rs), cl, w')
    \<and> (\<forall>i \<in> set is. view (c_db (cl i)) = view (sv_db w') \<and> ids (c_db (cl i)) = ids (sv_db w')
         \<and> outbox i (c_db (cl i)) = [])
    \<and> ids (sv_db w') = ids (sys_server s) \<union> (\<Union>i \<in> set is. ids (c_db (sys_client s i)))"
  by (rule two_rounds [OF assms])

section \<open>An example\<close>

text \<open>A local write in a run.\<close>

lemma run_write:
  assumes r: "run url n s" and few: "few n" and i: "i \<noteq> []" and names: "uuid \<noteq> []" "collection \<noteq> []" "recordID \<noteq> []"
    and payload: "payload \<noteq> []" and phys: "int64 phys" and fresh: "\<And>j. uuid \<notin> ids (c_db (sys_client s j))"
    and x_def: "x = write_op uuid phys collection recordID (Some payload) False (sys_client s i)"
    and c'_def: "c' = (sys_client s i)\<lparr>c_db := accept (\<lambda>_. 0) False x (c_db (sys_client s i)),
      c_clock := snd (Now phys (c_clock (sys_client s i)))\<rparr>"
  shows "applyLocalWrite uuid phys collection recordID (Some payload) False (sys_client s i) =
      (Inr \<lparr>sr_collection = collection, sr_record = recordID, sr_value = Some payload\<rparr>, c')"
    and "run url (Suc n) (set_client i c' s)"
proof -
  note g = run_good [OF r few]
  have "writable uuid collection recordID (Some payload) False (sys_client s i)"
    by (rule writable_good [OF g few names _ fresh]) simp
  from applyLocalWrite_ok [OF sound_good [OF g i] this x_def, of "\<lambda>_. 0"]
  show w: "applyLocalWrite uuid phys collection recordID (Some payload) False (sys_client s i) =
      (Inr \<lparr>sr_collection = collection, sr_record = recordID, sr_value = Some payload\<rparr>, c')"
    by (simp add: c'_def)
  have "step s (set_client i (snd (applyLocalWrite uuid phys collection recordID (Some payload) False (sys_client s i))) s)"
    by (rule step.Write [OF i names _ _ phys fresh]) (simp_all add: payload)
  then show "run url (Suc n) (set_client i c' s)" using run.Step [OF r] by (simp add: w)
qed

definition example_env :: server_env where
  "example_env = \<lparr>env_sha = map (\<lambda>c. of_nat (of_char c)), env_random = \<lambda>n. Inr [of_nat n],
     env_time = int, env_now = \<lambda>n x. int n\<rparr>"

lemma enrolled_write:
  "enrolled env c d \<Longrightarrow> enrolled env (c\<lparr>c_db := accept now a x (c_db c), c_clock := k\<rparr>) d"
  by (simp add: enrolled_def)

lemma example_names: "\<not> trim_space_empty ''a''" "\<not> trim_space_empty ''b''"
  by (simp_all add: trim_space_empty_def space2_def space3_def)

lemma example_tokens: "hex_encode [0] = ''00''" "hex_encode [1] = ''01''"
  by (simp_all add: hex_digit_def char_of_def bit_iff_odd)

text \<open>Two devices register and the first writes a record.\<close>

lemma example_system:
  "\<exists>s (w :: server_state). run ''http://s'' 5 s \<and> sv_db w = sys_server s \<and> enrolled example_env (sys_client s ''a'') (sys_server s)
     \<and> enrolled example_env (sys_client s ''b'') (sys_server s)
     \<and> length (outbox ''a'' (c_db (sys_client s ''a''))) = 1"
proof -
  let ?s0 = "start ''http://s''" and ?w0 = "NewServer empty_db"
  have f: "few 0" "few 2" "few 4" by (simp_all add: few_def)
  have p: "sv_db ?w0 = sys_server ?s0" "sv_served ?w0 = 0" "sys_server ?s0 = empty_db"
    "env_random example_env 0 = Inr [0]" "env_random example_env 1 = Inr [1]"
    by (simp_all add: NewServer_def start_def example_env_def)
  obtain w1 :: server_state where 1: "run ''http://s'' (0 + 2) (set_client ''a'' (with_token (hex_encode [0]) (sys_client ?s0 ''a''))
      (?s0\<lparr>sys_server := sv_db w1\<rparr>))"
    "sv_db w1 = registered (env_sha example_env) [0] (env_time example_env 0) \<lparr>rq_device = ''a'', rq_name = ''a''\<rparr> empty_db"
    "sv_served w1 = 0 + 1"
    using register_run [OF run.Start f(1) p(1) example_names(1,1), of example_env "[0]", unfolded p, OF refl] by blast
  define s1 where "s1 = set_client ''a'' (with_token (hex_encode [0]) (sys_client ?s0 ''a'')) (?s0\<lparr>sys_server := sv_db w1\<rparr>)"
  have s1: "sv_db w1 = sys_server s1" "run ''http://s'' 2 s1" "sv_served w1 = 1"
    using 1(1) [folded s1_def] 1(3) by (simp_all only: add_0) (simp add: s1_def)
  obtain w2 :: server_state where 2: "run ''http://s'' (2 + 2) (set_client ''b'' (with_token (hex_encode [1]) (sys_client s1 ''b''))
      (s1\<lparr>sys_server := sv_db w2\<rparr>))"
    "sv_db w2 = registered (env_sha example_env) [1] (env_time example_env 1) \<lparr>rq_device = ''b'', rq_name = ''b''\<rparr> (sys_server s1)"
    using register_run [OF s1(2) f(2) s1(1) example_names(2,2), of example_env "[1]", unfolded s1(3) p, OF refl] by blast
  define s2 where "s2 = set_client ''b'' (with_token (hex_encode [1]) (sys_client s1 ''b'')) (s1\<lparr>sys_server := sv_db w2\<rparr>)"
  have run2: "run ''http://s'' 4 s2" using 2(1) [folded s2_def] by (simp only: numeral_plus_numeral add_num_simps)
  have a: "enrolled example_env (sys_client s2 ''a'') (sys_server s2)"
    by (simp add: enrolled_def s2_def s1_def 2(2) 1(2) registered_def start_def start_client_def with_token_def
        SetKV_def store_simps example_tokens hashToken_def)
  have b: "enrolled example_env (sys_client s2 ''b'') (sys_server s2)"
    by (simp add: enrolled_def s2_def s1_def 2(2) 1(2) registered_def start_def start_client_def with_token_def
        SetKV_def store_simps example_tokens hashToken_def) (simp add: hex_digit_def example_env_def char_of_def bit_iff_odd)
  define x where "x = write_op ''op-1'' 7 ''notes'' ''note-1'' (Some ''1'') False (sys_client s2 ''a'')"
  define c where "c = (sys_client s2 ''a'')\<lparr>c_db := accept (\<lambda>_. 0) False x (c_db (sys_client s2 ''a'')),
    c_clock := snd (Now 7 (c_clock (sys_client s2 ''a'')))\<rparr>"
  have empty: "ops (c_db (sys_client s2 j)) = []" "outbox ''a'' (c_db (sys_client s2 ''a'')) = []"
    "c_device (sys_client s2 ''a'') = ''a''" for j
    by (simp_all add: s2_def s1_def start_def start_client_def outbox_def with_token_def SetKV_def store_simps)
      (simp add: empty_db_def)
  have "run ''http://s'' (Suc 4) (set_client ''a'' c s2)"
    by (rule run_write(2) [OF run2 f(3) _ _ _ _ _ _ _ x_def c_def])
      (simp_all add: int64_def ids_def empty(1))
  moreover have "enrolled example_env c (sys_server s2)" unfolding c_def by (rule enrolled_write [OF a])
  moreover have "length (outbox ''a'' (c_db c)) = 1"
    using outbox_accept [of x "c_db (sys_client s2 ''a'')" "''a''" "\<lambda>_. 0"] empty by (simp add: c_def) (simp add: x_def)
  ultimately show ?thesis
    using b by (intro exI [of _ "set_client ''a'' c s2"] exI [of _ "NewServer (sys_server s2)"])
      (simp add: NewServer_def)
qed

lemma example_phys: "\<forall>x :: op. int64 7" "\<forall>(i :: string) (x :: op). int64 7"
  by (simp_all add: int64_def)

theorem sync_catches_up_witness:
  "\<exists>s r c' w w'. run ''http://s'' 5 s
     \<and> Sync 1 (server_net example_env (c_base (sys_client s ''a''))) json_codec (\<lambda>x. 7) (\<lambda>x. 0) (sys_client s ''a'') w
         = Some (Returns (r, None), c', w')
     \<and> res_pushed r = 1 \<and> view (c_db c') = view (sv_db w')"
proof -
  obtain s and w :: server_state where s: "run ''http://s'' 5 s" "sv_db w = sys_server s"
    "enrolled example_env (sys_client s ''a'') (sys_server s)"
    "length (outbox ''a'' (c_db (sys_client s ''a''))) = 1"
    using example_system by blast
  have "(5 :: nat) < 2 ^ 30 - 1" "(5 :: nat) < 100 * 1" by simp_all
  from sync_catches_up [OF s(1) this(1) s(3,2) example_phys(1) this(2), of "\<lambda>x. 0"] s(1,4)
  show ?thesis by (elim exE conjE) (intro exI conjI, assumption, assumption, simp, assumption)
qed


theorem register_enrols_witness:
  "\<exists>c' w'. Register (server_net example_env ''http://s'') json_codec ''a'' (start_client ''http://s'' ''a'')
       (NewServer empty_db) = (Returns (Inr ()), c', w') \<and> enrolled example_env c' (sv_db w')"
proof -
  let ?c = "start_client ''http://s'' ''a''" and ?w = "NewServer empty_db"
  have f: "db_faults (c_db ?c) = []" "db_faults (sv_db ?w) = []" "\<not> trim_space_empty (c_device ?c)"
    "env_random example_env (sv_served ?w) = Inr [0]" "[0 :: 8 word] \<noteq> []" "c_base ?c = ''http://s''"
    "\<forall>v \<in> set (db_devices (sv_db ?w)). dev_hash v = hashToken (env_sha example_env) (hex_encode [0]) \<longrightarrow>
       dev_id v = c_device ?c"
    using example_names by (simp_all add: start_client_def NewServer_def example_env_def)
  from register_enrols [OF f(1-3) example_names(1) f(4,5,7)] show ?thesis unfolding f(6) by blast
qed

theorem two_rounds_converge_witness:
  "\<exists>s w rs cl w'. run ''http://s'' 5 s
     \<and> sync_all 1 example_env (\<lambda>i x. 7) (\<lambda>x. 0) ([''b'', ''a''] @ [''b'', ''a'']) (sys_client s) w
         = Some (Returns (Inr rs), cl, w')
     \<and> view (c_db (cl ''a'')) = view (c_db (cl ''b''))"
proof -
  obtain s and w :: server_state where s: "run ''http://s'' 5 s" "sv_db w = sys_server s"
    "enrolled example_env (sys_client s ''a'') (sys_server s)"
    "enrolled example_env (sys_client s ''b'') (sys_server s)"
    using example_system by blast
  then have e: "\<forall>i \<in> set [''b'', ''a'']. enrolled example_env (sys_client s i) (sys_server s)" by simp
  have n: "5 + 2 * length [''b'', ''a''] * (3 * (5 :: nat) + 2) < 2 ^ 32 - 1" "(5 :: nat) < 100 * 1" by simp_all
  from two_rounds_converge [OF s(1) n(1) e s(2) example_phys(2) n(2), of "\<lambda>x. 0"]
  obtain rs cl w' where r: "sync_all 1 example_env (\<lambda>i x. 7) (\<lambda>x. 0) ([''b'', ''a''] @ [''b'', ''a'']) (sys_client s) w
      = Some (Returns (Inr rs), cl, w')"
    "\<forall>i \<in> set [''b'', ''a'']. view (c_db (cl i)) = view (sv_db w')" by blast
  then have "view (c_db (cl ''a'')) = view (c_db (cl ''b''))" by simp
  with s(1) r(1) show ?thesis by blast
qed

end
