(* ===== verification/Demo.thy ===== *)
theory Demo
  imports SyncRounds
begin

text \<open>
  The demonstration, \<open>cmd/syncforge-demo/main.go\<close>: a server and three devices in one process, an
  offline conflict, two rounds of syncs and the check that all devices agree. The values of
  \<open>uuid\<close>, the wall clocks, \<open>net.Listen\<close>, the JSON text of a profile and the quoting of \<open>%q\<close> are
  arguments; the printed lines are part of the state.
\<close>

section \<open>Program state\<close>

record demo_state =
  dm_out :: "string list"
  dm_clients :: "string \<Rightarrow> client"
  dm_server :: server_state

text \<open>A statement ends normally, returns an error, panics, or does not end within its fuel.\<close>

type_synonym 'a act = "demo_state \<Rightarrow> ('a result call \<times> demo_state) option"

definition done_with :: "'a \<Rightarrow> 'a act" where
  "done_with x st = Some (Returns (Inr x), st)"

definition fail_with :: "go_error \<Rightarrow> 'a act" where
  "fail_with e st = Some (Returns (Inl e), st)"

definition and_then :: "'a act \<Rightarrow> ('a \<Rightarrow> 'b act) \<Rightarrow> 'b act" where
  "and_then m f st =
     (case m st of
        None \<Rightarrow> None
      | Some (Panics, st1) \<Rightarrow> Some (Panics, st1)
      | Some (Returns (Inl e), st1) \<Rightarrow> Some (Returns (Inl e), st1)
      | Some (Returns (Inr x), st1) \<Rightarrow> f x st1)"

definition say :: "string list \<Rightarrow> unit act" where
  "say ls st = Some (Returns (Inr ()), st\<lparr>dm_out := dm_out st @ ls\<rparr>)"

section \<open>Helpers\<close>

definition shortID :: "string \<Rightarrow> string" where
  "shortID i =
     (let p = takeWhile (\<lambda>c. c \<noteq> CHR ''-'') i
      in if length p < length i \<and> length p > 0 then p else i)"

definition recordName :: "(string \<Rightarrow> string + string) \<Rightarrow> client \<Rightarrow> string result \<times> client" where
  "recordName dec c =
     (case Get ''profiles'' ''user-1'' c of
        (Inl e, c1) \<Rightarrow> (Inl e, c1)
      | (Inr (rec, found), c1) \<Rightarrow>
          (if \<not> found then (Inr [], c1)
           else case dec (case sr_value rec of None \<Rightarrow> [] | Some v \<Rightarrow> v) of
                  Inl m \<Rightarrow> (Inl (ErrLib m), c1)
                | Inr name \<Rightarrow> (Inr name, c1)))"

definition startServer :: "db option \<Rightarrow> string + string \<Rightarrow> (string \<times> server_state) result" where
  "startServer file listen =
     (case Open file of
        (Inl e, d) \<Rightarrow> Inl e
      | (Inr d, _) \<Rightarrow>
          (case listen of
             Inl m \<Rightarrow> Inl (ErrLib m)
           | Inr addr \<Rightarrow> Inr (''http://'' @ addr, NewServer d)))"

text \<open>The outside of one run: the ids that \<open>uuid.NewString\<close> gives devices and operations, and the
  readings of the wall clock while an operation is written or a sync handles one.\<close>

record demo_env =
  de_server :: server_env
  de_listen :: "string + string"
  de_alice :: string
  de_bob :: string
  de_carol :: string
  de_uuid :: "nat \<Rightarrow> string"
  de_write :: "nat \<Rightarrow> int"
  de_phys :: "string \<Rightarrow> op \<Rightarrow> int"
  de_now :: "op \<Rightarrow> time"
  de_marshal :: "string \<Rightarrow> string + string"
  de_unmarshal :: "string \<Rightarrow> string + string"
  de_quote :: "string \<Rightarrow> string"

definition openDevice :: "demo_env \<Rightarrow> string \<Rightarrow> string \<Rightarrow> string \<Rightarrow> unit act" where
  "openDevice de url i displayName st =
     (case OpenClient None i url [] of
        (Inl e, _) \<Rightarrow> Some (Returns (Inl e), st)
      | (Inr c, _) \<Rightarrow>
          (case Register (server_net (de_server de) (c_base c)) json_codec displayName c (dm_server st) of
             (Panics, _, w) \<Rightarrow> Some (Panics, st\<lparr>dm_server := w\<rparr>)
           | (Returns (Inl e), _, w) \<Rightarrow> Some (Returns (Inl e), st\<lparr>dm_server := w\<rparr>)
           | (Returns (Inr _), c1, w) \<Rightarrow>
               Some (Returns (Inr ()), st\<lparr>dm_clients := (dm_clients st)(i := c1), dm_server := w\<rparr>)))"

text \<open>\<open>d.Put(ctx, "profiles", "user-1", profile{Name: name})\<close>, the \<open>k\<close>-th write of the run.\<close>

definition put_profile :: "demo_env \<Rightarrow> nat \<Rightarrow> string \<Rightarrow> string \<Rightarrow> unit act" where
  "put_profile de k i name st =
     (case Put (de_uuid de k) (de_write de k) ''profiles'' ''user-1'' (de_marshal de name) (dm_clients st i) of
        (r, c) \<Rightarrow> Some (Returns r, st\<lparr>dm_clients := (dm_clients st)(i := c)\<rparr>))"

definition sync_device :: "nat \<Rightarrow> demo_env \<Rightarrow> string \<Rightarrow> sync_result act" where
  "sync_device fuel de i st =
     (case Sync fuel (server_net (de_server de) (c_base (dm_clients st i))) json_codec (de_phys de i) (de_now de)
             (dm_clients st i) (dm_server st) of
        None \<Rightarrow> None
      | Some (Panics, c, w) \<Rightarrow>
          Some (Panics, st\<lparr>dm_clients := (dm_clients st)(i := c), dm_server := w\<rparr>)
      | Some (Returns (r, Some e), c, w) \<Rightarrow>
          Some (Returns (Inl e), st\<lparr>dm_clients := (dm_clients st)(i := c), dm_server := w\<rparr>)
      | Some (Returns (r, None), c, w) \<Rightarrow>
          Some (Returns (Inr r), st\<lparr>dm_clients := (dm_clients st)(i := c), dm_server := w\<rparr>))"

definition read_name :: "demo_env \<Rightarrow> string \<Rightarrow> string act" where
  "read_name de i st =
     (case recordName (de_unmarshal de) (dm_clients st i) of
        (r, c) \<Rightarrow> Some (Returns r, st\<lparr>dm_clients := (dm_clients st)(i := c)\<rparr>))"

text \<open>\<open>printState\<close> drops errors and prints the empty name for them.\<close>

definition name_or_empty :: "demo_env \<Rightarrow> string \<Rightarrow> string act" where
  "name_or_empty de i st =
     (case recordName (de_unmarshal de) (dm_clients st i) of
        (r, c) \<Rightarrow> Some (Returns (Inr (case r of Inl e \<Rightarrow> [] | Inr n \<Rightarrow> n)),
          st\<lparr>dm_clients := (dm_clients st)(i := c)\<rparr>))"

definition printState :: "demo_env \<Rightarrow> string \<Rightarrow> unit act" where
  "printState de prefix =
     and_then (name_or_empty de (de_alice de)) (\<lambda>va.
     and_then (name_or_empty de (de_bob de)) (\<lambda>vb.
     and_then (name_or_empty de (de_carol de)) (\<lambda>vc.
       say [prefix @ ''Alice='' @ de_quote de va @ '' Bob='' @ de_quote de vb
              @ '' Carol='' @ de_quote de vc])))"

definition names :: "demo_env \<Rightarrow> string \<Rightarrow> string" where
  "names de i = (if i = de_alice de then ''Alice'' else if i = de_bob de then ''Bob''
     else if i = de_carol de then ''Carol'' else [])"

text \<open>\<open>%-5s\<close> pads on the right.\<close>

definition narrate :: "demo_env \<Rightarrow> nat \<Rightarrow> string \<Rightarrow> sync_result \<Rightarrow> string list" where
  "narrate de k i r =
     (''  round '' @ format_int (int k) @ '': ''
        @ names de i @ replicate (5 - length (names de i)) CHR '' ''
        @ '' synced (pushed='' @ format_int (int (res_pushed r)) @ '' pulled='' @ format_int (int (res_pulled r))
        @ '' conflicts='' @ format_int (int (length (res_conflicts r))) @ '')'')
     # map (\<lambda>f. ''           -> conflict on '' @ ci_collection f @ ''/'' @ ci_record f @ '' resolved: winner=''
            @ shortID (ci_winner f) @ '' loser='' @ shortID (ci_loser f)) (res_conflicts r)"

fun sync_each :: "nat \<Rightarrow> demo_env \<Rightarrow> (string \<Rightarrow> sync_result \<Rightarrow> string list) \<Rightarrow> string list \<Rightarrow> unit act" where
  "sync_each fuel de lines [] = done_with ()"
| "sync_each fuel de lines (i # is) =
     and_then (sync_device fuel de i) (\<lambda>r.
     and_then (say (lines i r)) (\<lambda>_. sync_each fuel de lines is))"

section \<open>The run\<close>

definition demo_start :: "nat \<Rightarrow> demo_env \<Rightarrow> string \<Rightarrow> unit act" where
  "demo_start fuel de url =
     and_then (openDevice de url (de_alice de) ''Alice's Laptop'') (\<lambda>_.
     and_then (openDevice de url (de_bob de) ''Bob's Phone'') (\<lambda>_.
     and_then (openDevice de url (de_carol de) ''Carol's Tablet'') (\<lambda>_.
     and_then (say [''Step 1: Alice creates a shared record and everyone syncs to establish a common starting point.'']) (\<lambda>_.
     and_then (put_profile de 0 (de_alice de) ''initial'') (\<lambda>_.
     and_then (sync_each fuel de (\<lambda>i r. []) [de_alice de, de_bob de, de_carol de]) (\<lambda>_.
     and_then (printState de ''  '') (\<lambda>_. say [[]])))))))"

definition demo_edits :: "demo_env \<Rightarrow> unit act" where
  "demo_edits de =
     and_then (say [''Step 2: all three devices go offline and independently edit the SAME record.'']) (\<lambda>_.
     and_then (put_profile de 1 (de_alice de) ''Alice's edit'') (\<lambda>_.
     and_then (say [''  Alice (offline):  \"Alice's edit\"'']) (\<lambda>_.
     and_then (put_profile de 2 (de_bob de) ''Bob's edit'') (\<lambda>_.
     and_then (say [''  Bob   (offline):  \"Bob's edit\"'']) (\<lambda>_.
     and_then (put_profile de 3 (de_carol de) ''Carol's edit'') (\<lambda>_.
       say [''  Carol (offline):  \"Carol's edit\"'', []]))))))"

definition em_dash :: string where
  "em_dash = [CHR 0xE2, CHR 0x80, CHR 0x94]"

definition demo_reconnect :: "nat \<Rightarrow> demo_env \<Rightarrow> unit act" where
  "demo_reconnect fuel de =
     (let order = [de_bob de, de_carol de, de_alice de]
      in and_then (say [''Step 3: reconnect in a deliberately scrambled order '' @ em_dash
           @ '' Bob, then Carol, then Alice '' @ em_dash @ '' twice, so everyone catches up.'']) (\<lambda>_.
         and_then (sync_each fuel de (narrate de 1) order) (\<lambda>_.
         and_then (sync_each fuel de (narrate de 2) order) (\<lambda>_. say [[]]))))"

definition demo_check :: "demo_env \<Rightarrow> string act" where
  "demo_check de =
     and_then (say [''Step 4: final state.'']) (\<lambda>_.
     and_then (printState de ''  '') (\<lambda>_.
     and_then (read_name de (de_alice de)) (\<lambda>va.
     and_then (read_name de (de_bob de)) (\<lambda>vb.
     and_then (read_name de (de_carol de)) (\<lambda>vc.
       if va \<noteq> vb \<or> vb \<noteq> vc
       then fail_with (ErrNew (''devices did not converge: alice='' @ de_quote de va
              @ '' bob='' @ de_quote de vb @ '' carol='' @ de_quote de vc))
       else and_then (say [[], ''All three devices converged deterministically on: '' @ de_quote de va])
              (\<lambda>_. done_with va))))))"

definition demo_title :: "string list" where
  "demo_title = [''SyncForge demo: three devices, one record, an offline conflict.'', []]"

text \<open>\<open>run\<close>, which reports the name it converged on only by printing it.\<close>

definition demo_run :: "nat \<Rightarrow> demo_env \<Rightarrow> (string result call \<times> string list) option" where
  "demo_run fuel de =
     (case startServer None (de_listen de) of
        Inl e \<Rightarrow> Some (Returns (Inl e), demo_title)
      | Inr (url, w) \<Rightarrow>
          map_option (map_prod id dm_out)
            (and_then (demo_start fuel de url) (\<lambda>_.
             and_then (demo_edits de) (\<lambda>_.
             and_then (demo_reconnect fuel de) (\<lambda>_. demo_check de)))
             \<lparr>dm_out = demo_title @ [''Server listening at '' @ url, []],
              dm_clients = start_client url, dm_server = w\<rparr>))"

section \<open>Statements that go through\<close>

text \<open>The program's state is a state of the system.\<close>

definition tracks :: "string \<Rightarrow> nat \<Rightarrow> system \<Rightarrow> demo_state \<Rightarrow> bool" where
  "tracks url n s st \<longleftrightarrow> run url n s \<and> dm_clients st = sys_client s \<and> sv_db (dm_server st) = sys_server s"

lemma tracksD:
  assumes "tracks url n s st"
  shows "run url n s" "dm_clients st = sys_client s" "sv_db (dm_server st) = sys_server s"
  using assms by (simp_all add: tracks_def)

lemma tracks_out [simp]: "tracks url n s (st\<lparr>dm_out := ls\<rparr>) = tracks url n s st"
  by (simp add: tracks_def)

lemma ids_logs: "ids (c_db (sys_client s j)) = op_id ` logs s j"
  by (auto simp: ids_def logs_def image_image)

lemma open_ok:
  assumes t: "tracks url n s st" and few: "few n" and c: "sys_client s i = start_client url i"
    and ne: "\<not> trim_space_empty i" "\<not> trim_space_empty name"
    and buf: "env_random (de_server de) (sv_served (dm_server st)) = Inr buf"
  shows "\<exists>st'. openDevice de url i name st = Some (Returns (Inr ()), st')
    \<and> tracks url (n + 2) (set_client i (with_token (hex_encode buf) (start_client url i))
        (s\<lparr>sys_server := registered (env_sha (de_server de)) buf (env_time (de_server de) (sv_served (dm_server st)))
          \<lparr>rq_device = i, rq_name = name\<rparr> (sys_server s)\<rparr>)) st'
    \<and> sv_served (dm_server st') = sv_served (dm_server st) + 1"
proof -
  from register_run [OF tracksD(1) [OF t] few tracksD(3) [OF t] ne buf] c
  obtain w' where r: "Register (server_net (de_server de) (c_base (start_client url i))) json_codec name
      (start_client url i) (dm_server st) = (Returns (Inr ()), with_token (hex_encode buf) (start_client url i), w')"
    "run url (n + 2) (set_client i (with_token (hex_encode buf) (start_client url i)) (s\<lparr>sys_server := sv_db w'\<rparr>))"
    "sv_db w' = registered (env_sha (de_server de)) buf (env_time (de_server de) (sv_served (dm_server st)))
        \<lparr>rq_device = i, rq_name = name\<rparr> (sys_server s)"
    "sv_served w' = sv_served (dm_server st) + 1"
    by auto
  have "sys_client (set_client i c s') = (sys_client s')(i := c)" for c s'
    by (simp add: set_client_def)
  then show ?thesis
    using r tracksD(2) [OF t]
    by (simp add: openDevice_def start_client_opened tracks_def del: set_client_simps(2))
qed

definition profile_op :: "string \<Rightarrow> string \<Rightarrow> op \<Rightarrow> bool" where
  "profile_op uuid text x \<longleftrightarrow> op_id x = uuid \<and> op_key x = (''profiles'', ''user-1'')
     \<and> op_payload x = Some text \<and> op_type x \<noteq> Delete"

lemma put_ok:
  assumes t: "tracks url n s st" and few: "few n" and i: "i \<noteq> []" and u: "de_uuid de k \<noteq> []"
    and phys: "int64 (de_write de k)" and m: "de_marshal de name = Inr text" "text \<noteq> []"
    and fresh: "de_uuid de k \<notin> op_id ` \<Union> (range (logs s))"
  shows "\<exists>x s' st'. put_profile de k i name st = Some (Returns (Inr ()), st') \<and> tracks url (Suc n) s' st'
    \<and> profile_op (de_uuid de k) text x \<and> op_device x = i \<and> clocks s i < op_hlc x
    \<and> \<Union> (range (logs s')) = insert (core x) (\<Union> (range (logs s))) \<and> core x \<in> logs s' i
    \<and> (\<forall>j. logs s j \<subseteq> logs s' j) \<and> (\<forall>j. j \<noteq> i \<longrightarrow> sys_client s' j = sys_client s j)
    \<and> (\<forall>env j. enrolled env (sys_client s j) (sys_server s) \<longrightarrow> enrolled env (sys_client s' j) (sys_server s'))"
proof -
  define x where "x = write_op (de_uuid de k) (de_write de k) ''profiles'' ''user-1'' (Some text) False (sys_client s i)"
  define c' where "c' = (sys_client s i)\<lparr>c_db := accept (\<lambda>_. 0) False x (c_db (sys_client s i)),
    c_clock := snd (Now (de_write de k) (c_clock (sys_client s i)))\<rparr>"
  define s' where "s' = set_client i c' s"
  have new: "de_uuid de k \<notin> ids (c_db (sys_client s j))" for j
    using fresh by (auto simp: ids_logs)
  have w: "applyLocalWrite (de_uuid de k) (de_write de k) ''profiles'' ''user-1'' (Some text) False (sys_client s i) =
      (Inr \<lparr>sr_collection = ''profiles'', sr_record = ''user-1'', sr_value = Some text\<rparr>, c')"
    and r: "run url (Suc n) s'"
    unfolding s'_def by (rule run_write [OF tracksD(1) [OF t] few i u _ _ m(2) phys new x_def c'_def]; simp)+
  have put: "put_profile de k i name st = Some (Returns (Inr ()), st\<lparr>dm_clients := sys_client s'\<rparr>)"
    using w by (simp add: put_profile_def Put_def m(1) tracksD(2) [OF t] s'_def set_client_def)
  have tr: "tracks url (Suc n) s' (st\<lparr>dm_clients := sys_client s'\<rparr>)"
    using r tracksD(3) [OF t] by (simp add: tracks_def s'_def)
  have "op_id x \<notin> ids (c_db (sys_client s i))" using new by (simp add: x_def)
  then have lg: "logs s' = (logs s)(i := insert (core x) (logs s i))"
    using accept_ops [of x "c_db (sys_client s i)" "\<lambda>_. 0"]
    by (simp add: s'_def logs_set_client c'_def) (simp add: logs_def)
  have "profile_op (de_uuid de k) text x"
    by (simp add: profile_op_def x_def write_op_delete)
  moreover have "op_device x = i"
    using client_okD(2) [OF goodD(1) [OF run_good [OF tracksD(1) [OF t] few]]] by (simp add: x_def)
  moreover have "clocks s i < op_hlc x"
    unfolding x_def by (rule write_later [OF run_good [OF tracksD(1) [OF t] few] few])
  moreover have "\<Union> (range (logs s')) = insert (core x) (\<Union> (range (logs s)))"
    unfolding lg by (auto split: if_splits)
  moreover have "enrolled env (sys_client s' j) (sys_server s')" if "enrolled env (sys_client s j) (sys_server s)" for env j
    by (cases "j = i") (use that enrolled_write in \<open>simp_all add: s'_def c'_def\<close>)
  ultimately show ?thesis
    using put tr lg by (intro exI [of _ x] exI [of _ s'] exI [of _ "st\<lparr>dm_clients := sys_client s'\<rparr>"])
      (auto simp: s'_def)
qed

lemma sync_each_all:
  assumes "sync_all fuel (de_server de) (de_phys de) (de_now de) is (dm_clients st) (dm_server st)
    = Some (Returns (Inr rs), cl, w)"
  shows "\<exists>out. sync_each fuel de lines is st = Some (Returns (Inr ()), \<lparr>dm_out = out, dm_clients = cl, dm_server = w\<rparr>)"
  using assms
proof (induction "is" arbitrary: st rs)
  case Nil
  then show ?case by (cases st) (auto simp: done_with_def)
next
  case (Cons i "is")
  obtain r c w1 where 1: "Sync fuel (server_net (de_server de) (c_base (dm_clients st i))) json_codec (de_phys de i)
      (de_now de) (dm_clients st i) (dm_server st) = Some (Returns (r, None), c, w1)"
    using Cons.prems by (auto split: option.splits call.splits)
  let ?st = "st\<lparr>dm_clients := (dm_clients st)(i := c), dm_server := w1, dm_out := dm_out st @ lines i r\<rparr>"
  have "sync_each fuel de lines (i # is) st = sync_each fuel de lines is ?st"
    by (simp add: and_then_def sync_device_def 1 say_def)
  moreover obtain rs' where "sync_all fuel (de_server de) (de_phys de) (de_now de) is (dm_clients ?st) (dm_server ?st)
      = Some (Returns (Inr rs'), cl, w)"
    using Cons.prems 1 by (auto split: option.splits call.splits sum.splits)
  ultimately show ?case using Cons.IH by metis
qed

definition name_result :: "(string \<Rightarrow> string + string) \<Rightarrow> record_state option \<Rightarrow> string result" where
  "name_result dec r =
     (case r of
        None \<Rightarrow> Inr []
      | Some r \<Rightarrow>
          (if rec_deleted r then Inr []
           else map_sum ErrLib id (dec (case rec_payload r of None \<Rightarrow> [] | Some v \<Rightarrow> v))))"

lemma recordName_ok: "db_faults (c_db c) = [] \<Longrightarrow>
    recordName dec c = (name_result dec (view (c_db c) (''profiles'', ''user-1'')), c)"
  by (auto simp: recordName_def Get_ok name_result_def split: option.split sum.split)

lemma tracks_faults: "tracks url n s st \<Longrightarrow> few n \<Longrightarrow> db_faults (c_db (dm_clients st i)) = []"
  using client_okD(8) [OF goodD(1) [OF run_good [OF tracksD(1)]]] by (simp add: tracksD(2))

lemma read_ok:
  assumes "tracks url n s st" and "few n"
  shows "read_name de i st = Some (Returns (name_result (de_unmarshal de)
      (view (c_db (dm_clients st i)) (''profiles'', ''user-1''))), st)"
    and "\<exists>v. name_or_empty de i st = Some (Returns (Inr v), st)"
  using recordName_ok [OF tracks_faults [OF assms]] by (simp_all add: read_name_def name_or_empty_def)

lemma printState_ok:
  assumes "tracks url n s st" and "few n"
  shows "\<exists>out. printState de prefix st = Some (Returns (Inr ()), st\<lparr>dm_out := out\<rparr>)"
proof -
  from read_ok(2) [OF assms] obtain va vb vc where
    "name_or_empty de (de_alice de) st = Some (Returns (Inr va), st)"
    "name_or_empty de (de_bob de) st = Some (Returns (Inr vb), st)"
    "name_or_empty de (de_carol de) st = Some (Returns (Inr vc), st)" by metis
  then show ?thesis by (auto simp: printState_def and_then_def say_def)
qed

section \<open>Opening the devices\<close>

definition digest :: "demo_env \<Rightarrow> (nat \<Rightarrow> bytes) \<Rightarrow> nat \<Rightarrow> string" where
  "digest de buf k = hashToken (env_sha (de_server de)) (hex_encode (buf k))"

text \<open>The devices \<open>A\<close> are open after \<open>k\<close> registrations; nothing is written yet.\<close>

definition opened :: "demo_env \<Rightarrow> (nat \<Rightarrow> bytes) \<Rightarrow> nat \<Rightarrow> string set \<Rightarrow> string \<Rightarrow> system \<Rightarrow> bool" where
  "opened de buf k A url s \<longleftrightarrow>
     dev_hash ` set (db_devices (sys_server s)) \<subseteq> digest de buf ` {..<k}
     \<and> (\<forall>i \<in> A. enrolled (de_server de) (sys_client s i) (sys_server s)
          \<and> (\<exists>m < k. fmlookup (db_kv (c_db (sys_client s i))) kvDeviceToken = Some (hex_encode (buf m))))
     \<and> (\<forall>i. i \<notin> A \<longrightarrow> sys_client s i = start_client url i) \<and> \<Union> (range (logs s)) = {}"

lemma upsert_hashes: "dev_hash ` set (upsert_device v ds) \<subseteq> insert (dev_hash v) (dev_hash ` set ds)"
  by (induction v ds rule: upsert_device.induct) auto

lemma start_client_simps:
  "db_faults (c_db (start_client url i)) = []" "c_device (start_client url i) = i" "ops (c_db (start_client url i)) = []"
  by (simp_all add: start_client_def)

lemma open_more:
  assumes t: "tracks url n s st" and few: "few n" and opn: "opened de buf k A url s" and new: "i \<notin> A"
    and names: "\<not> trim_space_empty i" "\<not> trim_space_empty name" and k: "sv_served (dm_server st) = k"
    and buf: "env_random (de_server de) k = Inr (buf k)" "buf k \<noteq> []"
    and fresh: "\<And>m. m < k \<Longrightarrow> digest de buf m \<noteq> digest de buf k"
  shows "\<exists>s' st'. openDevice de url i name st = Some (Returns (Inr ()), st') \<and> tracks url (n + 2) s' st'
    \<and> opened de buf (Suc k) (insert i A) url s' \<and> sv_served (dm_server st') = Suc k"
proof -
  note od = opn [unfolded opened_def]
  have c: "sys_client s i = start_client url i" using od new by blast
  define d where "d = registered (env_sha (de_server de)) (buf k) (env_time (de_server de) k)
    \<lparr>rq_device = i, rq_name = name\<rparr> (sys_server s)"
  define s' where "s' = set_client i (with_token (hex_encode (buf k)) (start_client url i)) (s\<lparr>sys_server := d\<rparr>)"
  obtain st' where "openDevice de url i name st = Some (Returns (Inr ()), st') \<and> tracks url (n + 2) s' st'
      \<and> sv_served (dm_server st') = k + 1"
    using open_ok [OF t few c names, of de "buf k", unfolded k, OF buf(1), folded d_def, folded s'_def] ..
  then have st': "openDevice de url i name st = Some (Returns (Inr ()), st')" "tracks url (n + 2) s' st'"
    "sv_served (dm_server st') = Suc k"
    by (simp_all only: Suc_eq_plus1)
  have hashes: "dev_hash ` set (db_devices d) \<subseteq> insert (digest de buf k) (dev_hash ` set (db_devices (sys_server s)))"
    unfolding d_def registered_def
    using upsert_hashes [of "\<lparr>dev_id = i, dev_name = name, dev_hash = digest de buf k,
        dev_created = env_time (de_server de) k\<rparr>" "db_devices (sys_server s)"] by (simp add: digest_def)
  then have hs: "dev_hash ` set (db_devices (sys_server s')) \<subseteq> digest de buf ` {..<Suc k}"
    using conjunct1 [OF od] by (auto simp: s'_def lessThan_Suc)
  have "dev_hash v \<noteq> digest de buf k" if "v \<in> set (db_devices (sys_server s))" for v
  proof -
    have "dev_hash v \<in> digest de buf ` {..<k}"
      by (rule subsetD [OF conjunct1 [OF od]]) (rule imageI [OF that])
    then obtain m where m: "dev_hash v = digest de buf m" "m \<in> {..<k}" by (rule imageE)
    then show ?thesis using fresh [of m] by simp
  qed
  then have self: "enrolled (de_server de) (with_token (hex_encode (buf k)) (start_client url i)) d"
    using enrolled_register [of "start_client url i" "buf k" "sys_server s" "de_server de"
        "env_time (de_server de) k" name] buf(2)
    by (auto simp: d_def start_client_simps digest_def)
  have "enrolled (de_server de) (sys_client s' j) (sys_server s')
      \<and> (\<exists>m < Suc k. fmlookup (db_kv (c_db (sys_client s' j))) kvDeviceToken = Some (hex_encode (buf m)))"
    if j: "j \<in> insert i A" for j
  proof (cases "j = i")
    case True
    with self show ?thesis by (auto simp: s'_def start_client_simps)
  next
    case False
    with j have "j \<in> A" by simp
    with od obtain m where e: "enrolled (de_server de) (sys_client s j) (sys_server s)" and m: "m < k"
      "fmlookup (db_kv (c_db (sys_client s j))) kvDeviceToken = Some (hex_encode (buf m))" by blast
    have "c_device (sys_client s j) = j"
      by (rule client_okD(2) [OF goodD(1) [OF run_good [OF tracksD(1) [OF t] few]]])
    then have "enrolled (de_server de) (sys_client s j) d"
      unfolding d_def using False m fresh [OF m(1)] by (intro enrolled_other [OF e]) (auto simp: digest_def)
    with False m show ?thesis by (auto simp: s'_def intro: less_SucI)
  qed
  moreover have "logs s' = logs s"
    by (auto simp: fun_eq_iff s'_def logs_def c start_client_simps)
  ultimately have "opened de buf (Suc k) (insert i A) url s'"
    using hs od unfolding opened_def by (simp add: s'_def)
  with st' show ?thesis by blast
qed

text \<open>What the environment provides in a normal run: device and operation ids that are there and
  distinct, 64-bit clock readings, tokens with distinct digests, and JSON that reads back.\<close>

definition sensible :: "demo_env \<Rightarrow> bool" where
  "sensible de \<longleftrightarrow>
     distinct [de_alice de, de_bob de, de_carol de]
     \<and> (\<forall>i \<in> {de_alice de, de_bob de, de_carol de}. \<not> trim_space_empty i)
     \<and> inj_on (de_uuid de) {..<4} \<and> (\<forall>k < 4. de_uuid de k \<noteq> [] \<and> int64 (de_write de k))
     \<and> (\<forall>i x. int64 (de_phys de i x))
     \<and> (\<exists>buf. (\<forall>k < 3. env_random (de_server de) k = Inr (buf k) \<and> buf k \<noteq> []) \<and> inj_on (digest de buf) {..<3})
     \<and> (\<forall>name \<in> {''initial'', ''Alice's edit'', ''Bob's edit'', ''Carol's edit''}.
          \<exists>t. de_marshal de name = Inr t \<and> t \<noteq> [] \<and> de_unmarshal de t = Inr name)"

definition begun :: "string \<Rightarrow> demo_state \<Rightarrow> bool" where
  "begun url st \<longleftrightarrow> dm_clients st = start_client url \<and> dm_server st = NewServer empty_db"

lemma demo_names: "\<not> trim_space_empty ''Alice's Laptop''" "\<not> trim_space_empty ''Bob's Phone''"
  "\<not> trim_space_empty ''Carol's Tablet''"
  by (simp_all add: trim_space_empty_def space2_def space3_def)

lemma all_open:
  assumes de: "sensible de" and b: "begun url st"
  shows "\<exists>st1 st2 st3 s. openDevice de url (de_alice de) ''Alice's Laptop'' st = Some (Returns (Inr ()), st1)
    \<and> openDevice de url (de_bob de) ''Bob's Phone'' st1 = Some (Returns (Inr ()), st2)
    \<and> openDevice de url (de_carol de) ''Carol's Tablet'' st2 = Some (Returns (Inr ()), st3)
    \<and> tracks url 6 s st3 \<and> \<Union> (range (logs s)) = {}
    \<and> (\<forall>i \<in> {de_alice de, de_bob de, de_carol de}. enrolled (de_server de) (sys_client s i) (sys_server s))"
proof -
  obtain buf where buf: "\<And>k. k < 3 \<Longrightarrow> env_random (de_server de) k = Inr (buf k) \<and> buf k \<noteq> []"
    and inj: "inj_on (digest de buf) {..<3}"
    using de unfolding sensible_def by blast
  have dg: "m < k \<Longrightarrow> k < 3 \<Longrightarrow> digest de buf m \<noteq> digest de buf k" for m k
    using inj by (auto simp: inj_on_def)
  have ids: "de_bob de \<notin> {de_alice de}" "de_carol de \<notin> {de_bob de, de_alice de}"
    "\<not> trim_space_empty (de_alice de)" "\<not> trim_space_empty (de_bob de)" "\<not> trim_space_empty (de_carol de)"
    using de by (auto simp: sensible_def)
  have few: "few 0" "few 2" "few 4" by (simp_all add: few_def)
  have t0: "tracks url 0 (start url) st" "sv_served (dm_server st) = 0"
    using b run.Start [of url] by (simp_all add: tracks_def begun_def NewServer_def start_def)
  have "logs (start url) = (\<lambda>i. {})" by (simp add: fun_eq_iff logs_def start_def start_client_simps)
  then have o0: "opened de buf 0 {} url (start url)" by (simp add: opened_def start_def)
  obtain s1 st1 where 1: "openDevice de url (de_alice de) ''Alice's Laptop'' st = Some (Returns (Inr ()), st1)"
    "tracks url (0 + 2) s1 st1" "opened de buf (Suc 0) {de_alice de} url s1" "sv_served (dm_server st1) = Suc 0"
    using open_more [OF t0(1) few(1) o0 _ ids(3) demo_names(1) t0(2)] buf [of 0] by auto
  have t1: "tracks url 2 s1 st1" using 1(2) by (simp only: add_0)
  obtain s2 st2 where 2: "openDevice de url (de_bob de) ''Bob's Phone'' st1 = Some (Returns (Inr ()), st2)"
    "tracks url (2 + 2) s2 st2" "opened de buf (Suc (Suc 0)) {de_bob de, de_alice de} url s2"
    "sv_served (dm_server st2) = Suc (Suc 0)"
    using open_more [OF t1 few(2) 1(3) ids(1,4) demo_names(2) 1(4)] buf [of "Suc 0"] dg [of _ "Suc 0"] by auto
  have t2: "tracks url 4 s2 st2" using 2(2) by (simp only: numeral_plus_numeral add_num_simps)
  obtain s3 st3 where 3: "openDevice de url (de_carol de) ''Carol's Tablet'' st2 = Some (Returns (Inr ()), st3)"
    "tracks url (4 + 2) s3 st3" "opened de buf (Suc (Suc (Suc 0))) {de_carol de, de_bob de, de_alice de} url s3"
    using open_more [OF t2 few(3) 2(3) ids(2,5) demo_names(3) 2(4)] buf [of "Suc (Suc 0)"] dg [of _ "Suc (Suc 0)"]
    by auto
  have "tracks url 6 s3 st3" using 3(2) by (simp only: numeral_plus_numeral add_num_simps)
  moreover have "\<Union> (range (logs s3)) = {}"
    "\<forall>i \<in> {de_alice de, de_bob de, de_carol de}. enrolled (de_server de) (sys_client s3 i) (sys_server s3)"
    using 3(3) unfolding opened_def by (blast, blast)
  ultimately show ?thesis using 1(1) 2(1) 3(1) by (intro exI conjI)
qed

end
