(* ===== verification/DemoRun.thy ===== *)
theory DemoRun
  imports Demo
begin

text \<open>
  The demonstration converges: phase by phase, every statement of \<open>Demo.demo_run\<close> goes through, its
  state stays a state of the system, and the final check finds the three devices agreed on one of
  the concurrent edits.
\<close>

section \<open>Facts about stores in a run\<close>

lemma store_some:
  assumes g: "good n s" and d: "d \<in> stores s" and x: "x \<in> set (ops d)"
  shows "\<exists>r. view d (op_key x) = Some r"
proof -
  have "summary (ops_of_key (core ` set (ops d)) (op_key x)) (view d (op_key x))"
    using view_of_log_summary [OF history_causal_ops [OF goodD(3) [OF g] store_cores(1) [OF g d]]]
      store_cores(2) [OF g d] by simp
  moreover have "core x \<in> ops_of_key (core ` set (ops d)) (op_key x)" using x by (simp add: ops_of_key_def)
  ultimately show ?thesis by (auto simp: summary_def split: option.splits)
qed

text \<open>An operation the server has by its id is the one the system has, and its device has it.\<close>

lemma server_has:
  assumes g: "good n s" and U: "\<Union> (range (logs s)) \<subseteq> U" and i: "op_id x \<in> ids (sys_server s)"
    and uniq: "\<And>z. z \<in> U \<Longrightarrow> op_id z = op_id x \<Longrightarrow> z = core x"
  shows "\<exists>y \<in> set (ops (sys_server s)). core y = core x" and "core x \<in> logs s (op_device x)"
proof -
  obtain y where y: "y \<in> set (ops (sys_server s))" "op_id y = op_id x" using i by (auto simp: ids_def)
  then have c: "core y \<in> \<Union> (range (logs s))" using goodD(4) [OF g] by blast
  with U uniq [of "core y"] y(2) have e: "core y = core x" by auto
  with y(1) show "\<exists>y \<in> set (ops (sys_server s)). core y = core x" by blast
  from c e obtain j where "core x \<in> logs s j" by auto
  from historyD(1) [OF goodD(3) [OF g] this] show "core x \<in> logs s (op_device x)"
    by (simp add: proper_op_def)
qed

lemma outbox_or_server:
  assumes g: "good n s" and x: "core x \<in> logs s i"
  shows "op_id x \<in> ids (sys_server s) \<union> op_id ` set (outbox i (c_db (sys_client s i)))"
  using x unfolding outbox_ids [OF g] by (auto simp: ids_logs intro: image_eqI [of _ _ "core x"])

section \<open>The phases\<close>

abbreviation devices :: "demo_env \<Rightarrow> string set" where
  "devices de \<equiv> {de_alice de, de_bob de, de_carol de}"

lemma sensibleD:
  assumes "sensible de"
  shows "i \<in> devices de \<Longrightarrow> i \<noteq> []" "k < 4 \<Longrightarrow> de_uuid de k \<noteq> []" "k < 4 \<Longrightarrow> int64 (de_write de k)"
    "\<forall>i x. int64 (de_phys de i x)" "j < 4 \<Longrightarrow> k < 4 \<Longrightarrow> de_uuid de j = de_uuid de k \<Longrightarrow> j = k"
    "name \<in> {''initial'', ''Alice's edit'', ''Bob's edit'', ''Carol's edit''} \<Longrightarrow>
      \<exists>t. de_marshal de name = Inr t \<and> t \<noteq> [] \<and> de_unmarshal de t = Inr name"
proof -
  have "trim_space_empty []" by (simp add: trim_space_empty_def)
  then show "i \<in> devices de \<Longrightarrow> i \<noteq> []" using assms by (auto simp: sensible_def)
qed (use assms in \<open>auto simp: sensible_def inj_on_def\<close>)

lemma put_more:
  assumes de: "sensible de" and t: "tracks url n s st" and few: "few n" and i: "i \<in> devices de" and k: "k < 4"
    and mt: "de_marshal de name = Inr txt" "txt \<noteq> []"
    and U: "\<Union> (range (logs s)) \<subseteq> core ` X" "op_id ` X \<subseteq> de_uuid de ` {..<k}"
    and e: "\<forall>i \<in> devices de. enrolled (de_server de) (sys_client s i) (sys_server s)"
  shows "\<exists>x s' st'. put_profile de k i name st = Some (Returns (Inr ()), st') \<and> tracks url (Suc n) s' st'
    \<and> profile_op (de_uuid de k) txt x \<and> op_device x = i \<and> clocks s i < op_hlc x
    \<and> \<Union> (range (logs s')) \<subseteq> core ` insert x X \<and> op_id ` insert x X \<subseteq> de_uuid de ` {..<Suc k}
    \<and> core x \<in> logs s' i \<and> (\<forall>j. logs s j \<subseteq> logs s' j)
    \<and> (\<forall>i \<in> devices de. enrolled (de_server de) (sys_client s' i) (sys_server s'))"
proof -
  have "de_uuid de k \<notin> op_id ` X"
  proof
    assume "de_uuid de k \<in> op_id ` X"
    with U(2) obtain j where "j < k" "de_uuid de k = de_uuid de j" by blast
    with sensibleD(5) [OF de k, of j] k show False by simp
  qed
  moreover have "op_id ` \<Union> (range (logs s)) \<subseteq> op_id ` core ` X" by (rule image_mono [OF U(1)])
  moreover have "op_id ` core ` X = op_id ` X" by (simp add: image_image)
  ultimately have fresh: "de_uuid de k \<notin> op_id ` \<Union> (range (logs s))" by blast
  obtain x s' st' where p: "put_profile de k i name st = Some (Returns (Inr ()), st')" "tracks url (Suc n) s' st'"
    "profile_op (de_uuid de k) txt x" "op_device x = i" "clocks s i < op_hlc x"
    "\<Union> (range (logs s')) = insert (core x) (\<Union> (range (logs s)))" "core x \<in> logs s' i" "\<forall>j. logs s j \<subseteq> logs s' j"
    "\<forall>env j. enrolled env (sys_client s j) (sys_server s) \<longrightarrow> enrolled env (sys_client s' j) (sys_server s')"
    using put_ok [OF t few sensibleD(1) [OF de i] sensibleD(2,3) [OF de k] mt fresh] by blast
  have "\<Union> (range (logs s')) \<subseteq> core ` insert x X" using U(1) unfolding p(6) by blast
  moreover have "op_id ` insert x X \<subseteq> de_uuid de ` {..<Suc k}"
    using U(2) p(3) by (auto simp: profile_op_def lessThan_Suc)
  moreover have "\<forall>i \<in> devices de. enrolled (de_server de) (sys_client s' i) (sys_server s')" using e p(9) by blast
  ultimately show ?thesis using p(1-5,7,8) by (intro exI conjI)
qed

text \<open>The first round, which spreads the first write.\<close>

lemma first_round:
  fixes de
  defines "is \<equiv> [de_alice de, de_bob de, de_carol de]"
  assumes de: "sensible de" and fuel: "0 < fuel" and t: "tracks url 7 s st"
    and U: "\<Union> (range (logs s)) \<subseteq> {core x}" "core x \<in> logs s (op_device x)" and x: "op_device x \<in> devices de"
    and e: "\<forall>i \<in> devices de. enrolled (de_server de) (sys_client s i) (sys_server s)"
  shows "\<exists>s' st' m. sync_each fuel de lines is st = Some (Returns (Inr ()), st') \<and> tracks url m s' st' \<and> m \<le> 22
    \<and> \<Union> (range (logs s')) \<subseteq> {core x} \<and> core x \<in> logs s' (op_device x)
    \<and> (\<forall>i \<in> devices de. enrolled (de_server de) (sys_client s' i) (sys_server s'))"
proof -
  let ?N = "card (\<Union> (range (logs s)))"
  have "few 7" by (simp add: few_def)
  note g = run_good [OF tracksD(1) [OF t] this]
  have N: "?N \<le> 1" using card_mono [OF _ U(1)] by simp
  then have few: "few (7 + length is * (3 * ?N + 2))" and N': "?N < 100 * fuel"
    using fuel by (simp_all add: few_def is_def)
  have e': "\<forall>i \<in> set is. enrolled (de_server de) (sys_client s i) (sys_server s)" using e by (simp add: is_def)
  obtain rs s' w where y: "sync_all fuel (de_server de) (de_phys de) (de_now de) is (sys_client s) (dm_server st)
      = Some (Returns (Inr rs), sys_client s', w)" "sv_db w = sys_server s'" "all_synced (de_server de) is s s'"
    using sync_all_steps [OF g few e' tracksD(3) [OF t] sensibleD(4) [OF de] N'] by blast
  obtain out where each: "sync_each fuel de lines is st =
      Some (Returns (Inr ()), \<lparr>dm_out = out, dm_clients = sys_client s', dm_server = w\<rparr>)"
    using sync_each_all [OF y(1) [folded tracksD(2) [OF t]]] by blast
  obtain m where m: "m \<le> length is * (3 * ?N + 2)" "(step ^^ m) s s'" using all_syncedD(1) [OF y(3)] by blast
  have m22: "7 + m \<le> 22" using m(1) N by (simp add: is_def)
  have t': "tracks url (7 + m) s' \<lparr>dm_out = out, dm_clients = sys_client s', dm_server = w\<rparr>"
    using run_steps [OF tracksD(1) [OF t] m(2)] y(2) by (simp add: tracks_def)
  have g': "good (7 + m) s'" by (rule run_good [OF tracksD(1) [OF t']]) (use m22 in \<open>simp add: few_def\<close>)
  have U': "\<Union> (range (logs s')) \<subseteq> {core x}" by (rule subset_trans [OF all_syncedD(2) [OF y(3)] U(1)])
  have "op_device x \<in> set is" using x by (auto simp: is_def)
  then have "op_id x \<in> ids (sys_server s')"
    using outbox_or_server [OF g U(2)] unfolding all_syncedD(3) [OF y(3)] by blast
  then have "core x \<in> logs s' (op_device x)" by (rule server_has(2) [OF g' U']) simp
  moreover have "\<forall>i \<in> devices de. enrolled (de_server de) (sys_client s' i) (sys_server s')"
    using e all_syncedD(6) [OF y(3)] by blast
  ultimately show ?thesis using each t' m22 U' by blast
qed

lemma demo_start_ok:
  assumes de: "sensible de" and b: "begun url st" and fuel: "0 < fuel" and mt: "de_marshal de ''initial'' = Inr t" "t \<noteq> []"
  shows "\<exists>st' s n x. demo_start fuel de url st = Some (Returns (Inr ()), st') \<and> tracks url n s st' \<and> n \<le> 22
    \<and> (\<forall>i \<in> devices de. enrolled (de_server de) (sys_client s i) (sys_server s))
    \<and> \<Union> (range (logs s)) \<subseteq> {core x} \<and> core x \<in> logs s (de_alice de) \<and> op_id x = de_uuid de 0"
proof -
  obtain st1 st2 st3 s3 where o: "openDevice de url (de_alice de) ''Alice's Laptop'' st = Some (Returns (Inr ()), st1)"
    "openDevice de url (de_bob de) ''Bob's Phone'' st1 = Some (Returns (Inr ()), st2)"
    "openDevice de url (de_carol de) ''Carol's Tablet'' st2 = Some (Returns (Inr ()), st3)"
    "tracks url 6 s3 st3" "\<Union> (range (logs s3)) = {}"
    "\<forall>i \<in> devices de. enrolled (de_server de) (sys_client s3 i) (sys_server s3)"
    using all_open [OF de b] by blast
  let ?st3 = "st3\<lparr>dm_out := dm_out st3
    @ [''Step 1: Alice creates a shared record and everyone syncs to establish a common starting point.'']\<rparr>"
  have few: "few 6" "(0 :: nat) < 4" "de_alice de \<in> devices de" and t3: "tracks url 6 s3 ?st3"
    and U3: "\<Union> (range (logs s3)) \<subseteq> core ` {}" "op_id ` {} \<subseteq> de_uuid de ` {..<0}"
    using o(4,5) by (simp_all add: few_def)
  obtain x s4 st4 where p: "put_profile de 0 (de_alice de) ''initial'' ?st3 = Some (Returns (Inr ()), st4)"
    "tracks url (Suc 6) s4 st4" "profile_op (de_uuid de 0) t x" "op_device x = de_alice de"
    "\<Union> (range (logs s4)) \<subseteq> core ` insert x {}" "core x \<in> logs s4 (de_alice de)"
    "\<forall>i \<in> devices de. enrolled (de_server de) (sys_client s4 i) (sys_server s4)"
    using put_more [OF de t3 few(1,3,2) mt U3 o(6)] by blast
  have t4: "tracks url 7 s4 st4" and U4: "\<Union> (range (logs s4)) \<subseteq> {core x}" "core x \<in> logs s4 (op_device x)"
    and x: "op_device x \<in> devices de"
    using p(2,4,5,6) by simp_all
  obtain s5 st5 m where r: "sync_each fuel de (\<lambda>i r. []) [de_alice de, de_bob de, de_carol de] st4 = Some (Returns (Inr ()), st5)"
    "tracks url m s5 st5" "m \<le> 22" "\<Union> (range (logs s5)) \<subseteq> {core x}" "core x \<in> logs s5 (op_device x)"
    "\<forall>i \<in> devices de. enrolled (de_server de) (sys_client s5 i) (sys_server s5)"
    using first_round [OF de fuel t4 U4 x p(7)] by blast
  have "few m" using r(3) by (simp add: few_def)
  from printState_ok [OF r(2) this] obtain out where
    "printState de ''  '' st5 = Some (Returns (Inr ()), st5\<lparr>dm_out := out\<rparr>)" by blast
  then have "demo_start fuel de url st = Some (Returns (Inr ()), st5\<lparr>dm_out := out @ [[]]\<rparr>)"
    using r(1) by (simp add: demo_start_def and_then_def o(1-3) say_def p(1) del: sync_each.simps)
  moreover have "tracks url m s5 (st5\<lparr>dm_out := out @ [[]]\<rparr>)" using r(2) by simp
  moreover have "op_id x = de_uuid de 0" using p(3) by (simp add: profile_op_def)
  ultimately show ?thesis using r(3-6) unfolding p(4) by (intro exI conjI)
qed

lemma demo_edits_ok:
  assumes de: "sensible de" and t: "tracks url n s st" and n: "n \<le> 22"
    and e: "\<forall>i \<in> devices de. enrolled (de_server de) (sys_client s i) (sys_server s)"
    and U: "\<Union> (range (logs s)) \<subseteq> {core x0}" "core x0 \<in> logs s (de_alice de)" and x0: "op_id x0 = de_uuid de 0"
    and mt: "de_marshal de ''Alice's edit'' = Inr t1" "t1 \<noteq> []" "de_marshal de ''Bob's edit'' = Inr t2" "t2 \<noteq> []"
      "de_marshal de ''Carol's edit'' = Inr t3" "t3 \<noteq> []"
  shows "\<exists>st' s' x1 x2 x3. demo_edits de st = Some (Returns (Inr ()), st') \<and> tracks url (n + 3) s' st'
    \<and> (\<forall>i \<in> devices de. enrolled (de_server de) (sys_client s' i) (sys_server s'))
    \<and> \<Union> (range (logs s')) \<subseteq> {core x0, core x1, core x2, core x3} \<and> core x1 \<in> logs s' (de_alice de)
    \<and> profile_op (de_uuid de 1) t1 x1 \<and> profile_op (de_uuid de 2) t2 x2 \<and> profile_op (de_uuid de 3) t3 x3
    \<and> op_hlc x0 < op_hlc x1"
proof -
  have few: "few n" "few (Suc n)" "few (Suc (Suc n))" using n by (simp_all add: few_def)
  have dev: "de_alice de \<in> devices de" "de_bob de \<in> devices de" "de_carol de \<in> devices de" by simp_all
  have k: "(1 :: nat) < 4" "(2 :: nat) < 4" "(3 :: nat) < 4" "Suc 1 = 2" "Suc 2 = 3" by simp_all
  define sa where "sa = st\<lparr>dm_out := dm_out st @ [''Step 2: all three devices go offline and independently edit the SAME record.'']\<rparr>"
  have ta: "tracks url n s sa" and Ua: "\<Union> (range (logs s)) \<subseteq> core ` {x0}" "op_id ` {x0} \<subseteq> de_uuid de ` {..<1}"
    using t U(1) x0 by (simp_all add: sa_def)
  obtain x1 s1 st1 where 1: "put_profile de 1 (de_alice de) ''Alice's edit'' sa = Some (Returns (Inr ()), st1)"
    "tracks url (Suc n) s1 st1" "profile_op (de_uuid de 1) t1 x1" "clocks s (de_alice de) < op_hlc x1"
    "\<Union> (range (logs s1)) \<subseteq> core ` {x1, x0}" "op_id ` {x1, x0} \<subseteq> de_uuid de ` {..<2}" "core x1 \<in> logs s1 (de_alice de)"
    "\<forall>i \<in> devices de. enrolled (de_server de) (sys_client s1 i) (sys_server s1)"
    using put_more [OF de ta few(1) dev(1) k(1) mt(1,2) Ua e] unfolding k(4) by blast
  define sb where "sb = st1\<lparr>dm_out := dm_out st1 @ [''  Alice (offline):  \"Alice's edit\"'']\<rparr>"
  have tb: "tracks url (Suc n) s1 sb" using 1(2) by (simp add: sb_def)
  obtain x2 s2 st2 where 2: "put_profile de 2 (de_bob de) ''Bob's edit'' sb = Some (Returns (Inr ()), st2)"
    "tracks url (Suc (Suc n)) s2 st2" "profile_op (de_uuid de 2) t2 x2"
    "\<Union> (range (logs s2)) \<subseteq> core ` {x2, x1, x0}" "op_id ` {x2, x1, x0} \<subseteq> de_uuid de ` {..<3}" "\<forall>j. logs s1 j \<subseteq> logs s2 j"
    "\<forall>i \<in> devices de. enrolled (de_server de) (sys_client s2 i) (sys_server s2)"
    using put_more [OF de tb few(2) dev(2) k(2) mt(3,4) 1(5,6,8)] unfolding k(5) by blast
  define sc where "sc = st2\<lparr>dm_out := dm_out st2 @ [''  Bob   (offline):  \"Bob's edit\"'']\<rparr>"
  have tc: "tracks url (Suc (Suc n)) s2 sc" using 2(2) by (simp add: sc_def)
  obtain x3 s3 st3 where 3: "put_profile de 3 (de_carol de) ''Carol's edit'' sc = Some (Returns (Inr ()), st3)"
    "tracks url (Suc (Suc (Suc n))) s3 st3" "profile_op (de_uuid de 3) t3 x3"
    "\<Union> (range (logs s3)) \<subseteq> core ` {x3, x2, x1, x0}" "\<forall>j. logs s2 j \<subseteq> logs s3 j"
    "\<forall>i \<in> devices de. enrolled (de_server de) (sys_client s3 i) (sys_server s3)"
    using put_more [OF de tc few(3) dev(3) k(3) mt(5,6) 2(4,5,7)] by blast
  define sd where "sd = st3\<lparr>dm_out := dm_out st3 @ [''  Carol (offline):  \"Carol's edit\"'', []]\<rparr>"
  have "demo_edits de st = Some (Returns (Inr ()), sd)"
    using 1(1) 2(1) 3(1) unfolding sa_def sb_def sc_def sd_def
    by (simp add: demo_edits_def and_then_def say_def)
  moreover have "tracks url (n + 3) s3 sd" using 3(2) by (simp add: sd_def numeral_3_eq_3)
  moreover have "\<Union> (range (logs s3)) \<subseteq> {core x0, core x1, core x2, core x3}" using 3(4) by auto
  moreover have "core x1 \<in> logs s3 (de_alice de)" using 1(7) 2(6) 3(5) by blast
  moreover have "op_hlc x0 < op_hlc x1"
    using historyD(3) [OF goodD(3) [OF run_good [OF tracksD(1) [OF t] few(1)]] U(2)] 1(4) by simp
  ultimately show ?thesis using 1(3) 2(3) 3(3,6) by (intro exI conjI)
qed

lemma demo_reconnect_ok:
  assumes de: "sensible de" and t: "tracks url n s st" and n: "n \<le> 25" and fuel: "0 < fuel"
    and e: "\<forall>i \<in> devices de. enrolled (de_server de) (sys_client s i) (sys_server s)"
  shows "\<exists>st' s' m. demo_reconnect fuel de st = Some (Returns (Inr ()), st') \<and> tracks url m s' st' \<and> few m
    \<and> (\<forall>i \<in> devices de. view (c_db (sys_client s' i)) = view (sys_server s'))
    \<and> ids (c_db (sys_client s (de_alice de))) \<subseteq> ids (sys_server s')
    \<and> \<Union> (range (logs s')) \<subseteq> \<Union> (range (logs s))"
proof -
  let ?order = "[de_bob de, de_carol de, de_alice de]"
  let ?N = "card (\<Union> (range (logs s)))"
  have "few n" using n by (simp add: few_def)
  note g = run_good [OF tracksD(1) [OF t] this]
  have N: "?N \<le> 25" using goodD(6) [OF g] n by linarith
  then have few: "few (n + 2 * length ?order * (3 * ?N + 2))" using n by (simp add: few_def)
  have N': "?N < 100 * fuel" using N fuel by linarith
  have e': "\<forall>i \<in> set ?order. enrolled (de_server de) (sys_client s i) (sys_server s)" using e by simp
  obtain rs s2 w2 m where y: "sync_all fuel (de_server de) (de_phys de) (de_now de) (?order @ ?order) (sys_client s) (dm_server st)
      = Some (Returns (Inr rs), sys_client s2, w2)" "sv_db w2 = sys_server s2" "(step ^^ m) s s2"
    "m \<le> 2 * length ?order * (3 * ?N + 2)"
    "\<forall>i \<in> set ?order. view (c_db (sys_client s2 i)) = view (sys_server s2)
       \<and> ids (c_db (sys_client s2 i)) = ids (sys_server s2) \<and> outbox i (c_db (sys_client s2 i)) = []"
    "ids (sys_server s2) = ids (sys_server s) \<union> (\<Union>i \<in> set ?order. ids (c_db (sys_client s i)))"
    "\<Union> (range (logs s2)) \<subseteq> \<Union> (range (logs s))"
    using two_rounds_good [OF g few e' tracksD(3) [OF t] sensibleD(4) [OF de] N', of "de_now de"]
    by (elim exE conjE) (rule that)
  obtain ps cl1 w1 qs where h: "sync_all fuel (de_server de) (de_phys de) (de_now de) ?order (sys_client s) (dm_server st)
      = Some (Returns (Inr ps), cl1, w1)"
    "sync_all fuel (de_server de) (de_phys de) (de_now de) ?order cl1 w1 = Some (Returns (Inr qs), sys_client s2, w2)"
    using sync_all_split [OF y(1)] by blast
  define sa where "sa = st\<lparr>dm_out := dm_out st @ [''Step 3: reconnect in a deliberately scrambled order '' @ em_dash
    @ '' Bob, then Carol, then Alice '' @ em_dash @ '' twice, so everyone catches up.'']\<rparr>"
  have sa: "dm_clients sa = sys_client s" "dm_server sa = dm_server st" using tracksD(2) [OF t] by (simp_all add: sa_def)
  obtain o1 where 1: "sync_each fuel de (narrate de 1) ?order sa
      = Some (Returns (Inr ()), \<lparr>dm_out = o1, dm_clients = cl1, dm_server = w1\<rparr>)"
    using sync_each_all [OF h(1) [folded sa]] by blast
  obtain o2 where 2: "sync_each fuel de (narrate de 2) ?order \<lparr>dm_out = o1, dm_clients = cl1, dm_server = w1\<rparr>
      = Some (Returns (Inr ()), \<lparr>dm_out = o2, dm_clients = sys_client s2, dm_server = w2\<rparr>)"
    using sync_each_all [of fuel de ?order "\<lparr>dm_out = o1, dm_clients = cl1, dm_server = w1\<rparr>" qs "sys_client s2" w2] h(2)
    by (simp del: sync_all.simps sync_each.simps) blast
  have run: "demo_reconnect fuel de st =
      Some (Returns (Inr ()), \<lparr>dm_out = o2 @ [[]], dm_clients = sys_client s2, dm_server = w2\<rparr>)"
    using 1 2 unfolding sa_def
    by (simp add: demo_reconnect_def Let_def and_then_def say_def del: sync_each.simps)
  have "tracks url (n + m) s2 \<lparr>dm_out = o2 @ [[]], dm_clients = sys_client s2, dm_server = w2\<rparr>"
    using run_steps [OF tracksD(1) [OF t] y(3)] y(2) by (simp add: tracks_def)
  moreover have "few (n + m)" by (rule few_mono [OF few]) (use y(4) in simp)
  moreover have "\<forall>i \<in> devices de. view (c_db (sys_client s2 i)) = view (sys_server s2)" using y(5) by auto
  moreover have "ids (c_db (sys_client s (de_alice de))) \<subseteq> ids (sys_server s2)" unfolding y(6) by auto
  ultimately show ?thesis using run y(7) by (intro exI conjI)
qed

section \<open>The winner\<close>

lemma winner:
  assumes g: "good n s" and U: "\<Union> (range (logs s)) \<subseteq> {core x0, core x1, core x2, core x3}"
    and i: "op_id x1 \<in> ids (sys_server s)" and less: "op_hlc x0 < op_hlc x1"
    and ids: "distinct [op_id x0, op_id x1, op_id x2, op_id x3]"
    and ops: "profile_op u1 t1 x1" "profile_op u2 t2 x2" "profile_op u3 t3 x3"
  shows "\<exists>r t. view (sys_server s) (''profiles'', ''user-1'') = Some r \<and> \<not> rec_deleted r
    \<and> rec_payload r = Some t \<and> t \<in> {t1, t2, t3}"
proof -
  have "z = core x1" if "z \<in> {core x0, core x1, core x2, core x3}" "op_id z = op_id x1" for z
    using that ids by auto
  then obtain y where y: "y \<in> set (ops (sys_server s))" "core y = core x1"
    using server_has(1) [OF g U i] by blast
  have "op_key (core y) = op_key (core x1)" "op_hlc (core y) = op_hlc (core x1)" by (simp_all only: y(2))
  then have key: "op_key y = (''profiles'', ''user-1'')" "op_hlc y = op_hlc x1"
    using ops(1) by (simp_all add: profile_op_def)
  obtain r where r: "view (sys_server s) (''profiles'', ''user-1'') = Some r"
    using store_some [OF g server_store y(1)] key(1) by auto
  obtain w where w: "w \<in> set (ops (sys_server s))" "r = (fromOp w)\<lparr>rec_vv := rec_vv r\<rparr>"
    "\<forall>x \<in> set (ops (sys_server s)). op_key x = (''profiles'', ''user-1'') \<longrightarrow> op_hlc x \<le> op_hlc w"
    using store_latest [OF g server_store r] by blast
  have "core w \<in> {core x0, core x1, core x2, core x3}" using goodD(4) [OF g] U w(1) by blast
  moreover have "core w \<noteq> core x0"
  proof
    assume "core w = core x0"
    then have "op_hlc (core w) = op_hlc (core x0)" by (rule arg_cong)
    then show False using w(3) y(1) key less by fastforce
  qed
  ultimately obtain x where x: "x \<in> {x1, x2, x3}" "core w = core x" by blast
  have "op_payload (core w) = op_payload (core x)" "op_type (core w) = op_type (core x)" by (simp_all only: x(2))
  moreover have "rec_payload r = op_payload w" "rec_deleted r = (op_type w = Delete)"
    using arg_cong [OF w(2), of rec_payload] arg_cong [OF w(2), of rec_deleted] by (simp_all add: fromOp_def)
  ultimately show ?thesis using r x(1) ops by (auto simp: profile_op_def)
qed

lemma demo_check_ok:
  assumes t: "tracks url n s st" and few: "few n"
    and v: "\<forall>i \<in> devices de. view (c_db (sys_client s i)) = view (sys_server s)"
    and name: "name_result (de_unmarshal de) (view (sys_server s) (''profiles'', ''user-1'')) = Inr name"
  shows "\<exists>st'. demo_check de st = Some (Returns (Inr name), st')
    \<and> last (dm_out st') = ''All three devices converged deterministically on: '' @ de_quote de name"
proof -
  let ?sa = "st\<lparr>dm_out := dm_out st @ [''Step 4: final state.'']\<rparr>"
  have "tracks url n s ?sa" using t by simp
  from printState_ok [OF this few] obtain out where p: "printState de ''  '' ?sa = Some (Returns (Inr ()), st\<lparr>dm_out := out\<rparr>)"
    by auto
  have tb: "tracks url n s (st\<lparr>dm_out := out\<rparr>)" using t by simp
  have r: "read_name de i (st\<lparr>dm_out := out\<rparr>) = Some (Returns (Inr name), st\<lparr>dm_out := out\<rparr>)" if "i \<in> devices de" for i
    using read_ok(1) [OF tb few, of de i] tracksD(2) [OF t] v that name by auto
  have "demo_check de st = Some (Returns (Inr name), st\<lparr>dm_out := out
      @ [[], ''All three devices converged deterministically on: '' @ de_quote de name]\<rparr>)"
    using p by (simp add: demo_check_def and_then_def say_def r done_with_def)
  then show ?thesis by simp
qed

section \<open>The demonstration\<close>

text \<open>C3: For any ids, clocks and tokens the environment provides, and with one page of fuel for each pull,
  the demonstration ends without an error and without finding that its devices disagree: it
  prints that all three converged on one of the three concurrent edits.\<close>

theorem demo_converges:
  assumes "sensible de" and "de_listen de = Inr addr" and "0 < fuel"
  shows "\<exists>name out. demo_run fuel de = Some (Returns (Inr name), out)
    \<and> name \<in> {''Alice's edit'', ''Bob's edit'', ''Carol's edit''}
    \<and> last out = ''All three devices converged deterministically on: '' @ de_quote de name"
proof -
  note m = sensibleD(6) [OF assms(1)]
  obtain t0 t1 t2 t3 where mt: "de_marshal de ''initial'' = Inr t0" "t0 \<noteq> []"
    "de_marshal de ''Alice's edit'' = Inr t1" "t1 \<noteq> []" "de_unmarshal de t1 = Inr ''Alice's edit''"
    "de_marshal de ''Bob's edit'' = Inr t2" "t2 \<noteq> []" "de_unmarshal de t2 = Inr ''Bob's edit''"
    "de_marshal de ''Carol's edit'' = Inr t3" "t3 \<noteq> []" "de_unmarshal de t3 = Inr ''Carol's edit''"
    using m [of "''initial''"] m [of "''Alice's edit''"] m [of "''Bob's edit''"] m [of "''Carol's edit''"] by auto
  define url where "url = ''http://'' @ addr"
  define st where "st = \<lparr>dm_out = demo_title @ [''Server listening at '' @ url, []],
    dm_clients = start_client url, dm_server = NewServer empty_db\<rparr>"
  have server: "startServer None (de_listen de) = Inr (url, NewServer empty_db)"
    by (simp add: startServer_def Open_def store_simps Let_def assms(2) url_def)
  have b: "begun url st" by (simp add: begun_def st_def)
  obtain st1 s1 n x0 where 1: "demo_start fuel de url st = Some (Returns (Inr ()), st1)" "tracks url n s1 st1" "n \<le> 22"
    "\<forall>i \<in> devices de. enrolled (de_server de) (sys_client s1 i) (sys_server s1)"
    "\<Union> (range (logs s1)) \<subseteq> {core x0}" "core x0 \<in> logs s1 (de_alice de)" "op_id x0 = de_uuid de 0"
    using demo_start_ok [OF assms(1) b assms(3) mt(1,2)] by blast
  obtain st2 s2 x1 x2 x3 where 2: "demo_edits de st1 = Some (Returns (Inr ()), st2)" "tracks url (n + 3) s2 st2"
    "\<forall>i \<in> devices de. enrolled (de_server de) (sys_client s2 i) (sys_server s2)"
    "\<Union> (range (logs s2)) \<subseteq> {core x0, core x1, core x2, core x3}" "core x1 \<in> logs s2 (de_alice de)"
    "profile_op (de_uuid de 1) t1 x1" "profile_op (de_uuid de 2) t2 x2" "profile_op (de_uuid de 3) t3 x3"
    "op_hlc x0 < op_hlc x1"
    using demo_edits_ok [OF assms(1) 1(2-7) mt(3,4,6,7,9,10)] by blast
  have n25: "n + 3 \<le> 25" using 1(3) by simp
  obtain st3 s3 k where 3: "demo_reconnect fuel de st2 = Some (Returns (Inr ()), st3)" "tracks url k s3 st3" "few k"
    "\<forall>i \<in> devices de. view (c_db (sys_client s3 i)) = view (sys_server s3)"
    "ids (c_db (sys_client s2 (de_alice de))) \<subseteq> ids (sys_server s3)"
    "\<Union> (range (logs s3)) \<subseteq> \<Union> (range (logs s2))"
    using demo_reconnect_ok [OF assms(1) 2(2) n25 assms(3) 2(3)] by blast
  note g = run_good [OF tracksD(1) [OF 3(2)] 3(3)]
  have i: "op_id x1 \<in> ids (sys_server s3)"
    using 3(5) imageI [OF 2(5), of op_id] unfolding ids_logs by auto
  note u = sensibleD(5) [OF assms(1)]
  have "distinct [op_id x0, op_id x1, op_id x2, op_id x3]"
    using 1(7) 2(6-8) u [of 0 1] u [of 0 2] u [of 0 3] u [of 1 2] u [of 1 3] u [of 2 3] by (auto simp: profile_op_def)
  from winner [OF g subset_trans [OF 3(6) 2(4)] i 2(9) this 2(6-8)]
  obtain r t where r: "view (sys_server s3) (''profiles'', ''user-1'') = Some r" "\<not> rec_deleted r"
    "rec_payload r = Some t" "t \<in> {t1, t2, t3}" by blast
  then obtain name where name: "name_result (de_unmarshal de) (view (sys_server s3) (''profiles'', ''user-1'')) = Inr name"
    "name \<in> {''Alice's edit'', ''Bob's edit'', ''Carol's edit''}"
    using mt by (auto simp: name_result_def)
  obtain st4 where 4: "demo_check de st3 = Some (Returns (Inr name), st4)"
    "last (dm_out st4) = ''All three devices converged deterministically on: '' @ de_quote de name"
    using demo_check_ok [OF 3(2-4) name(1)] by blast
  have "demo_run fuel de = Some (Returns (Inr name), dm_out st4)"
    using 1(1) 2(1) 3(1) 4(1) by (simp add: demo_run_def server and_then_def st_def)
  with name(2) 4(2) show ?thesis by blast
qed

definition example_demo :: demo_env where
  "example_demo = \<lparr>de_server = example_env, de_listen = Inr ''127.0.0.1:8080'', de_alice = ''a'', de_bob = ''b'',
     de_carol = ''c'', de_uuid = \<lambda>k. replicate (Suc k) CHR ''u'', de_write = \<lambda>k. 10 * int k,
     de_phys = \<lambda>i x. 5, de_now = \<lambda>x. 0, de_marshal = Inr, de_unmarshal = Inr, de_quote = \<lambda>s. s\<rparr>"

lemma example_sensible: "sensible example_demo"
proof -
  have "inj_on (digest example_demo (\<lambda>n. [of_nat n])) {..<3}"
    by (simp add: inj_on_def digest_def example_demo_def example_env_def lessThan_nat_numeral lessThan_Suc hashToken_def)
      (simp add: hex_digit_def char_of_def bit_iff_odd)
  moreover have "\<not> trim_space_empty ''c''" by (simp add: trim_space_empty_def space2_def space3_def)
  ultimately show ?thesis
    unfolding sensible_def using example_names
    by (auto simp: example_demo_def example_env_def int64_def inj_on_def intro!: exI [of _ "\<lambda>n. [of_nat n]"])
qed

theorem demo_converges_witness:
  "\<exists>name out. demo_run 1 example_demo = Some (Returns (Inr name), out)
     \<and> last out = ''All three devices converged deterministically on: '' @ name"
proof -
  have "de_listen example_demo = Inr ''127.0.0.1:8080''" "de_quote example_demo name = name" for name
    by (simp_all add: example_demo_def)
  with demo_converges [OF example_sensible this(1), of 1] show ?thesis by auto
qed

end
