(* ===== verification/Restart.thy ===== *)
theory Restart
  imports SyncSystem
begin

text \<open>
  What the clock's restart costs: \<open>Open\<close> starts the logical clock from zero instead of from the
  timestamps the store holds, so that a device whose wall clock is behind gives a write that
  follows another an earlier timestamp, and replicas need not agree.
\<close>

definition written :: "string \<Rightarrow> int \<Rightarrow> string \<Rightarrow> client \<Rightarrow> client" where
  "written uuid phys payload c =
     snd (applyLocalWrite uuid phys ''notes'' ''note-1'' (Some payload) False c)"

definition pulls :: "int \<Rightarrow> op list \<Rightarrow> client \<Rightarrow> client" where
  "pulls phys xs c = foldl (\<lambda>c x. snd (pull_op (\<lambda>_. phys) (\<lambda>_. 0) (FromOplog x) (0, []) c)) c xs"

definition pushes :: "op list \<Rightarrow> db \<Rightarrow> db" where
  "pushes xs d = foldl (\<lambda>d x. snd (push_op (\<lambda>_. 0)
     \<lparr>dev_id = op_device x, dev_name = [], dev_hash = [], dev_created = 0\<rparr> (FromOplog x) d)) d xs"

definition reopened :: "client \<Rightarrow> client" where
  "reopened c = (case fst (OpenClient (Some (c_db c)) [] (c_base c) []) of Inl e \<Rightarrow> c | Inr c' \<Rightarrow> c')"


end
